theory Spec2Isabelle
  imports Complex_Main "HOL-Library.AList"
begin

unbundle bit_operations_syntax

section \<open>Data model of \<^verbatim>\<open>Crystal.cpp\<close>\<close>

text \<open>
  \<^verbatim>\<open>REAL\<close> is modelled by the mathematical reals: the development is about the
  structure of the computations (which positions are kept, which terms are summed, which
  caches are reused), not about rounding. Indices and counts are natural numbers. A
  \<^verbatim>\<open>const ScatteringPower*\<close> is modelled by its address, a natural number, the null
  pointer being \<open>0\<close>; the pointer comparison \<^verbatim>\<open>i1<i2\<close> is the comparison of addresses.
\<close>

type_synonym ScatteringPowerPtr = nat

record ScatteringComponent =
  mX :: real
  mY :: real
  mZ :: real
  mOccupancy :: real
  mpScattPow :: ScatteringPowerPtr
  mDynPopCorr :: real

record Neighbour =
  mNeighbourIndex :: nat
  mNeighbourSymmetryIndex :: nat
  mDist2 :: real

record NeighbourHood =
  mIndex :: nat
  mUniquePosSymmetryIndex :: nat
  mvNeighbour :: "Neighbour list"

record BumpMergePar =
  bmDist2 :: real
  mCanOverlap :: bool

text \<open>The two constructors of \<^verbatim>\<open>Crystal::BumpMergePar\<close>.\<close>

definition BumpMergePar0 :: BumpMergePar where
  "BumpMergePar0 = \<lparr>bmDist2 = 1, mCanOverlap = False\<rparr>"

definition BumpMergePar2 :: "real \<Rightarrow> bool \<Rightarrow> BumpMergePar" where
  "BumpMergePar2 dst canOverlap = \<lparr>bmDist2 = dst * dst, mCanOverlap = canOverlap\<rparr>"

text \<open>
  A scatterer as the crystal sees it: its clock (\<^verbatim>\<open>GetClockScatterer()\<close>) and the
  components it contributes (\<^verbatim>\<open>GetScatteringComponentList()\<close>).
\<close>

record Scatterer =
  mClockScatterer :: nat
  scattCompList :: "ScatteringComponent list"

text \<open>
  A \<^verbatim>\<open>std::map\<close> keyed by a pair of pointers is an association list:
  \<^verbatim>\<open>m[k]=v\<close> is \<^const>\<open>AList.update\<close>, \<^verbatim>\<open>m.find(k)\<close> is \<^const>\<open>map_of\<close>,
  \<^verbatim>\<open>m.erase(pos)\<close> is \<^const>\<open>AList.delete\<close> and \<^verbatim>\<open>m.size()==0\<close> is \<open>m = []\<close>.
\<close>

type_synonym PowPair = "ScatteringPowerPtr \<times> ScatteringPowerPtr"
type_synonym VBumpMergePar = "(PowPair \<times> BumpMergePar) list"
type_synonym VBondValenceRo = "(PowPair \<times> real) list"

text \<open>
  The state of a \<^verbatim>\<open>Crystal\<close> that the functions below read and write. A clock is the
  value of the tick counter at its last \<^verbatim>\<open>Click()\<close>, \<open>0\<close> when it never clicked or was
  reset.
\<close>

record Crystal =
  msTick :: nat
  mClockMaster :: nat
  mScattererRegistry :: "Scatterer list"
  mScattCompList :: "ScatteringComponent list"
  mClockScattCompList :: nat
  mUseDynPopCorr :: int
  mClockDynPopCorr :: nat
  mvDistTableSq :: "NeighbourHood list"
  mDistTableClock :: nat
  mClockMetricMatrix :: nat
  mvBumpMergePar :: VBumpMergePar
  mBumpMergeParClock :: nat
  mBumpMergeCostClock :: nat
  mBumpMergeCost :: real
  mBumpMergeScale :: real
  mvBondValenceRo :: VBondValenceRo
  mBondValenceParClock :: nat
  mBondValenceCalcClock :: nat
  mvBondValenceCalc :: "(nat \<times> real) list"
  mBondValenceCostClock :: nat
  mBondValenceCost :: real
  mBondValenceCostScale :: real
  mMasterClockScatteringPower :: nat

text \<open>
  Modelled from the spec: \<^verbatim>\<open>RefinableObjClock\<close> is declared outside the sources at
  hand. Following the specification (section 4.5), \<^verbatim>\<open>Click()\<close> advances a global
  monotonically increasing counter and stores its new value in the clock;
  \<^verbatim>\<open>a>b\<close> compares the stored values and \<^verbatim>\<open>Reset()\<close> stores \<open>0\<close>.
\<close>

definition Click :: "(nat \<Rightarrow> Crystal \<Rightarrow> Crystal) \<Rightarrow> Crystal \<Rightarrow> Crystal" where
  "Click setClock s = setClock (Suc (msTick s)) (s\<lparr>msTick := Suc (msTick s)\<rparr>)"

section \<open>Pairwise parameter maps\<close>

text \<open>The key under which a pair of species is stored: \<^verbatim>\<open>if(&scatt1 < &scatt2) ... else ...\<close>.\<close>

definition pairKey :: "ScatteringPowerPtr \<Rightarrow> ScatteringPowerPtr \<Rightarrow> PowPair" where
  "pairKey p1 p2 = (if p1 < p2 then (p1, p2) else (p2, p1))"

definition SetBumpMergeDistance4 ::
  "ScatteringPowerPtr \<Rightarrow> ScatteringPowerPtr \<Rightarrow> real \<Rightarrow> bool \<Rightarrow> Crystal \<Rightarrow> Crystal" where
  "SetBumpMergeDistance4 scatt1 scatt2 dst allowMerge s =
     Click (\<lambda>t c. c\<lparr>mBumpMergeParClock := t\<rparr>)
       (if scatt1 < scatt2
        then s\<lparr>mvBumpMergePar :=
                 AList.update (scatt1, scatt2) (BumpMergePar2 dst allowMerge) (mvBumpMergePar s)\<rparr>
        else s\<lparr>mvBumpMergePar :=
                 AList.update (scatt2, scatt1) (BumpMergePar2 dst allowMerge) (mvBumpMergePar s)\<rparr>)"

definition SetBumpMergeDistance ::
  "ScatteringPowerPtr \<Rightarrow> ScatteringPowerPtr \<Rightarrow> real \<Rightarrow> Crystal \<Rightarrow> Crystal" where
  "SetBumpMergeDistance scatt1 scatt2 dst s =
     (if scatt1 = scatt2 then SetBumpMergeDistance4 scatt1 scatt2 dst True s
      else SetBumpMergeDistance4 scatt1 scatt2 dst False s)"

definition RemoveBumpMergeDistance ::
  "ScatteringPowerPtr \<Rightarrow> ScatteringPowerPtr \<Rightarrow> Crystal \<Rightarrow> Crystal" where
  "RemoveBumpMergeDistance scatt1 scatt2 s =
     (let key = (if scatt1 < scatt2 then (scatt1, scatt2) else (scatt2, scatt1)) in
      Click (\<lambda>t c. c\<lparr>mBumpMergeParClock := t\<rparr>)
        (case map_of (mvBumpMergePar s) key of
           Some p \<Rightarrow> s\<lparr>mvBumpMergePar := AList.delete key (mvBumpMergePar s)\<rparr>
         | None \<Rightarrow> s))"

definition AddBondValenceRo ::
  "ScatteringPowerPtr \<Rightarrow> ScatteringPowerPtr \<Rightarrow> real \<Rightarrow> Crystal \<Rightarrow> Crystal" where
  "AddBondValenceRo pow1 pow2 ro s =
     Click (\<lambda>t c. c\<lparr>mBondValenceParClock := t\<rparr>)
       (if pow1 < pow2
        then s\<lparr>mvBondValenceRo := AList.update (pow1, pow2) ro (mvBondValenceRo s)\<rparr>
        else s\<lparr>mvBondValenceRo := AList.update (pow2, pow1) ro (mvBondValenceRo s)\<rparr>)"

definition RemoveBondValenceRo ::
  "ScatteringPowerPtr \<Rightarrow> ScatteringPowerPtr \<Rightarrow> Crystal \<Rightarrow> Crystal" where
  "RemoveBondValenceRo pow1 pow2 s =
     (let key = (if pow1 < pow2 then (pow1, pow2) else (pow2, pow1)) in
      Click (\<lambda>t c. c\<lparr>mBondValenceParClock := t\<rparr>)
        (case map_of (mvBondValenceRo s) key of
           Some r \<Rightarrow> s\<lparr>mvBondValenceRo := AList.delete key (mvBondValenceRo s)\<rparr>
         | None \<Rightarrow> s))"

text \<open>A call of one of the four mutators of the pairwise maps, and a sequence of calls.\<close>

datatype ParCall =
    CallSetBumpMergeDistance ScatteringPowerPtr ScatteringPowerPtr real
  | CallSetBumpMergeDistance4 ScatteringPowerPtr ScatteringPowerPtr real bool
  | CallRemoveBumpMergeDistance ScatteringPowerPtr ScatteringPowerPtr
  | CallAddBondValenceRo ScatteringPowerPtr ScatteringPowerPtr real
  | CallRemoveBondValenceRo ScatteringPowerPtr ScatteringPowerPtr

fun doParCall :: "ParCall \<Rightarrow> Crystal \<Rightarrow> Crystal" where
  "doParCall (CallSetBumpMergeDistance a b d) s = SetBumpMergeDistance a b d s"
| "doParCall (CallSetBumpMergeDistance4 a b d m) s = SetBumpMergeDistance4 a b d m s"
| "doParCall (CallRemoveBumpMergeDistance a b) s = RemoveBumpMergeDistance a b s"
| "doParCall (CallAddBondValenceRo a b r) s = AddBondValenceRo a b r s"
| "doParCall (CallRemoveBondValenceRo a b) s = RemoveBondValenceRo a b s"

definition doParCalls :: "ParCall list \<Rightarrow> Crystal \<Rightarrow> Crystal" where
  "doParCalls calls s = fold doParCall calls s"

text \<open>
  The entries of a map that belong to the unordered pair \<open>{a, b}\<close>, whichever way round
  they are keyed, and the invariant of a map: no key twice, smaller address first.
\<close>

definition pairEntries :: "ScatteringPowerPtr \<Rightarrow> ScatteringPowerPtr \<Rightarrow> (PowPair \<times> 'v) list \<Rightarrow> (PowPair \<times> 'v) list" where
  "pairEntries a b al = filter (\<lambda>e. fst e = (a, b) \<or> fst e = (b, a)) al"

definition canonicalMap :: "(PowPair \<times> 'v) list \<Rightarrow> bool" where
  "canonicalMap al \<longleftrightarrow> distinct (map fst al) \<and> list_all (\<lambda>e. fst (fst e) \<le> snd (fst e)) al"

definition mapsCanonical :: "Crystal \<Rightarrow> bool" where
  "mapsCanonical s \<longleftrightarrow> canonicalMap (mvBumpMergePar s) \<and> canonicalMap (mvBondValenceRo s)"

text \<open>
  The state built by the constructors \<^verbatim>\<open>Crystal::Crystal(...)\<close>: both costs \<open>0\<close>, both
  scales \<open>1\<close>, the option \<^verbatim>\<open>mUseDynPopCorr\<close> set to \<open>1\<close> by \<^verbatim>\<open>InitOptions\<close>, nothing
  registered and no clock clicked yet.
\<close>

definition newCrystal :: Crystal where
  "newCrystal =
     \<lparr>msTick = 0, mClockMaster = 0, mScattererRegistry = [], mScattCompList = [],
      mClockScattCompList = 0, mUseDynPopCorr = 1, mClockDynPopCorr = 0,
      mvDistTableSq = [], mDistTableClock = 0, mClockMetricMatrix = 0,
      mvBumpMergePar = [], mBumpMergeParClock = 0, mBumpMergeCostClock = 0,
      mBumpMergeCost = 0, mBumpMergeScale = 1,
      mvBondValenceRo = [], mBondValenceParClock = 0, mBondValenceCalcClock = 0,
      mvBondValenceCalc = [], mBondValenceCostClock = 0, mBondValenceCost = 0,
      mBondValenceCostScale = 1, mMasterClockScatteringPower = 0\<rparr>"

section \<open>Collaborators outside \<^verbatim>\<open>Crystal.cpp\<close>\<close>

text \<open>
  What \<^verbatim>\<open>CalcDistTable\<close> asks of the unit cell and its space group, taken as parameters:
  \<open>nbSymmetrics\<close> is \<^verbatim>\<open>GetSpaceGroup().GetNbSymmetrics()\<close>, \<open>symmetric j (x, y, z)\<close> is
  row \<open>j\<close> of \<^verbatim>\<open>GetSpaceGroup().GetAllSymmetrics(x,y,z)\<close>, \<open>asymXmax\<close> is
  \<^verbatim>\<open>GetAsymUnit().Xmax()\<close>, \<open>latticePar0\<close> is \<^verbatim>\<open>GetLatticePar(0)\<close> and \<open>orthMatrix (r, c)\<close>
  is entry \<open>(r, c)\<close> of \<^verbatim>\<open>GetOrthMatrix()\<close>.
\<close>

record UnitCell =
  nbSymmetrics :: nat
  symmetric :: "nat \<Rightarrow> real \<times> real \<times> real \<Rightarrow> real \<times> real \<times> real"
  asymXmax :: real
  asymYmax :: real
  asymZmax :: real
  latticePar0 :: real
  latticePar1 :: real
  latticePar2 :: real
  orthMatrix :: "nat \<times> nat \<Rightarrow> real"

text \<open>
  What the crystal reads of a \<^verbatim>\<open>ScatteringPower\<close> object (\<^verbatim>\<open>GetDynPopCorrIndex()\<close>,
  \<^verbatim>\<open>GetFormalCharge()\<close>), and the store that maps an address to the object it points to.
\<close>

record ScatteringPower =
  mDynPopCorrIndex :: int
  mFormalCharge :: real

type_synonym PowerStore = "ScatteringPowerPtr \<Rightarrow> ScatteringPower"

text \<open>
  Modelled from the spec: \<^verbatim>\<open>UnitCell::FractionalToOrthonormalCoords\<close> is defined outside
  the sources at hand. Following the specification (section 4.1, step 3) it transforms the
  fractional vector to Cartesian space by the fractional-to-orthonormal matrix.
\<close>

definition FractionalToOrthonormalCoords :: "UnitCell \<Rightarrow> real \<times> real \<times> real \<Rightarrow> real \<times> real \<times> real" where
  "FractionalToOrthonormalCoords c v =
     (case v of (x, y, z) \<Rightarrow>
        (orthMatrix c (0, 0) * x + orthMatrix c (0, 1) * y + orthMatrix c (0, 2) * z,
         orthMatrix c (1, 0) * x + orthMatrix c (1, 1) * y + orthMatrix c (1, 2) * z,
         orthMatrix c (2, 0) * x + orthMatrix c (2, 1) * y + orthMatrix c (2, 2) * z))"

section \<open>\<^verbatim>\<open>Crystal::CalcDistTable\<close>\<close>

text \<open>
  The conversion \<^verbatim>\<open>(long)r\<close> truncates towards zero (a value outside the range of
  \<^verbatim>\<open>long\<close> is undefined in C++ and not modelled: \<^verbatim>\<open>long\<close> is \<^typ>\<open>int\<close>), and
  \<^verbatim>\<open>modf(r,&junk)\<close> returns the fractional part, with the sign of \<open>r\<close>. On \<^typ>\<open>int\<close>
  the operators \<open>AND\<close> and \<open>NOT\<close> are those of two's complement.
\<close>

definition toLong :: "real \<Rightarrow> int" where
  "toLong r = (if 0 \<le> r then \<lfloor>r\<rfloor> else \<lceil>r\<rceil>)"

definition modf :: "real \<Rightarrow> real" where
  "modf r = r - of_int (toLong r)"

definition FRAC2LONG :: int where "FRAC2LONG = 16384"
definition FRAC2LONGMASK :: int where "FRAC2LONGMASK = 16383"
definition HALF_FRAC2LONG :: int where "HALF_FRAC2LONG = 8192"
definition HALF_FRAC2LONGMASK :: int where "HALF_FRAC2LONGMASK = 8191"

text \<open>
  \<^verbatim>\<open>struct DistTableInternalPosition\<close>: the \<^verbatim>\<open>REAL\<close> members \<^verbatim>\<open>mX, mY, mZ\<close> are the fields
  \<open>mXr, mYr, mZr\<close>. Each constructor sets one triple only; the other one is never read on
  the path that used the constructor and is \<open>0\<close> here.
\<close>

record DistTableInternalPosition =
  mAtomIndex :: nat
  mSymmetryIndex :: nat
  mXr :: real
  mYr :: real
  mZr :: real
  mXL :: int
  mYL :: int
  mZL :: int

definition DistTableInternalPositionR :: "nat \<Rightarrow> nat \<Rightarrow> real \<Rightarrow> real \<Rightarrow> real \<Rightarrow> DistTableInternalPosition" where
  "DistTableInternalPositionR atomIndex symIdx x y z =
     \<lparr>mAtomIndex = atomIndex, mSymmetryIndex = symIdx, mXr = x, mYr = y, mZr = z,
      mXL = 0, mYL = 0, mZL = 0\<rparr>"

definition DistTableInternalPositionL :: "nat \<Rightarrow> nat \<Rightarrow> int \<Rightarrow> int \<Rightarrow> int \<Rightarrow> DistTableInternalPosition" where
  "DistTableInternalPositionL atomIndex symIdx x y z =
     \<lparr>mAtomIndex = atomIndex, mSymmetryIndex = symIdx, mXr = 0, mYr = 0, mZr = 0,
      mXL = x, mYL = y, mZL = z\<rparr>"

text \<open>\<^verbatim>\<open>if((xMax0*yMax0*zMax0)<0.6) useAsymUnit=true;\<close>\<close>

definition useAsymUnit :: "UnitCell \<Rightarrow> bool" where
  "useAsymUnit c \<longleftrightarrow> asymXmax c * asymYmax c * asymZmax c < 0.6"

text \<open>
  The working state of the first pass: \<^verbatim>\<open>vPos\<close>, \<^verbatim>\<open>vUniqueIndex\<close> and the table
  \<^verbatim>\<open>mvDistTableSq\<close>.
\<close>

type_synonym DistTableBuild = "DistTableInternalPosition list \<times> nat list \<times> NeighbourHood list"

text \<open>
  The control structure shared by both paths for symmetric \<open>j\<close> of component \<open>i\<close>, given
  the outcome \<open>near\<close> of the three nested tests against the limits with margin and the
  outcome \<open>inside\<close> of the test against the strict limits.
\<close>

definition addPosition ::
  "bool \<Rightarrow> bool \<Rightarrow> bool \<Rightarrow> nat \<Rightarrow> nat \<Rightarrow> DistTableInternalPosition \<Rightarrow> DistTableBuild \<Rightarrow> DistTableBuild" where
  "addPosition useAsym near inside i j p b =
     (case b of (vPos, vUniqueIndex, tbl) \<Rightarrow>
        if useAsym then
          (if near then
             (if inside
              then (vPos @ [p], vUniqueIndex[i := length (vPos @ [p]) - 1],
                    tbl[i := (tbl ! i)\<lparr>mUniquePosSymmetryIndex := j\<rparr>])
              else (vPos @ [p], vUniqueIndex, tbl))
           else (vPos, vUniqueIndex, tbl))
        else (vPos @ [p], vUniqueIndex[i := length (vPos @ [p]) - 1],
              tbl[i := (tbl ! i)\<lparr>mUniquePosSymmetryIndex := j\<rparr>]))"

text \<open>
  The position built for symmetric \<open>j\<close> of component \<open>i\<close>, \<^verbatim>\<open>fast=true\<close>: each
  coordinate is scaled, converted to \<^verbatim>\<open>long\<close> and masked. Then the tests against the
  limits with margin and against the strict limits, all converted to \<^verbatim>\<open>long\<close>.
\<close>

definition quantize :: "real \<Rightarrow> int" where
  "quantize r = toLong (r * of_int FRAC2LONG) AND FRAC2LONGMASK"

definition posFast :: "UnitCell \<Rightarrow> ScatteringComponent \<Rightarrow> nat \<Rightarrow> nat \<Rightarrow> DistTableInternalPosition" where
  "posFast c cmpt i j =
     (case symmetric c j (mX cmpt, mY cmpt, mZ cmpt) of (sx, sy, sz) \<Rightarrow>
        DistTableInternalPositionL i j (quantize sx) (quantize sy) (quantize sz))"

definition nearFast :: "UnitCell \<Rightarrow> real \<Rightarrow> DistTableInternalPosition \<Rightarrow> bool" where
  "nearFast c asymUnitMargin p \<longleftrightarrow>
     (let xMaxl = toLong ((asymXmax c + asymUnitMargin / latticePar0 c) * of_int FRAC2LONG);
          yMaxl = toLong ((asymYmax c + asymUnitMargin / latticePar1 c) * of_int FRAC2LONG);
          zMaxl = toLong ((asymZmax c + asymUnitMargin / latticePar2 c) * of_int FRAC2LONG);
          xMinl = toLong ((1 - asymUnitMargin / latticePar0 c) * of_int FRAC2LONG);
          yMinl = toLong ((1 - asymUnitMargin / latticePar1 c) * of_int FRAC2LONG);
          zMinl = toLong ((1 - asymUnitMargin / latticePar2 c) * of_int FRAC2LONG)
      in (mZL p > zMinl \<or> mZL p < zMaxl) \<and> (mXL p > xMinl \<or> mXL p < xMaxl)
         \<and> (mYL p > yMinl \<or> mYL p < yMaxl))"

definition insideFast :: "UnitCell \<Rightarrow> DistTableInternalPosition \<Rightarrow> bool" where
  "insideFast c p \<longleftrightarrow>
     (let xMax0l = toLong (asymXmax c * of_int FRAC2LONG);
          yMax0l = toLong (asymYmax c * of_int FRAC2LONG);
          zMax0l = toLong (asymZmax c * of_int FRAC2LONG)
      in mXL p \<le> xMax0l \<and> mYL p \<le> yMax0l \<and> mZL p \<le> zMax0l)"

definition symPosFast :: "UnitCell \<Rightarrow> real \<Rightarrow> ScatteringComponent \<Rightarrow> nat \<Rightarrow> nat \<Rightarrow> DistTableBuild \<Rightarrow> DistTableBuild" where
  "symPosFast c asymUnitMargin cmpt i j b =
     (let p = posFast c cmpt i j
      in addPosition (useAsymUnit c) (nearFast c asymUnitMargin p) (insideFast c p) i j p b)"

text \<open>
  The same for \<^verbatim>\<open>fast=false\<close>: each coordinate is reduced by \<^verbatim>\<open>modf\<close> and shifted by
  \<open>1\<close> when negative.
\<close>

definition reduce01 :: "real \<Rightarrow> real" where
  "reduce01 r = (if modf r < 0 then modf r + 1 else modf r)"

definition posExact :: "UnitCell \<Rightarrow> ScatteringComponent \<Rightarrow> nat \<Rightarrow> nat \<Rightarrow> DistTableInternalPosition" where
  "posExact c cmpt i j =
     (case symmetric c j (mX cmpt, mY cmpt, mZ cmpt) of (sx, sy, sz) \<Rightarrow>
        DistTableInternalPositionR i j (reduce01 sx) (reduce01 sy) (reduce01 sz))"

definition nearExact :: "UnitCell \<Rightarrow> real \<Rightarrow> DistTableInternalPosition \<Rightarrow> bool" where
  "nearExact c asymUnitMargin p \<longleftrightarrow>
     (let xMax = asymXmax c + asymUnitMargin / latticePar0 c;
          yMax = asymYmax c + asymUnitMargin / latticePar1 c;
          zMax = asymZmax c + asymUnitMargin / latticePar2 c;
          xMin = 1 - asymUnitMargin / latticePar0 c;
          yMin = 1 - asymUnitMargin / latticePar1 c;
          zMin = 1 - asymUnitMargin / latticePar2 c
      in (mZr p > zMin \<or> mZr p < zMax) \<and> (mXr p > xMin \<or> mXr p < xMax)
         \<and> (mYr p > yMin \<or> mYr p < yMax))"

definition insideExact :: "UnitCell \<Rightarrow> DistTableInternalPosition \<Rightarrow> bool" where
  "insideExact c p \<longleftrightarrow> mXr p \<le> asymXmax c \<and> mYr p \<le> asymYmax c \<and> mZr p \<le> asymZmax c"

definition symPosExact :: "UnitCell \<Rightarrow> real \<Rightarrow> ScatteringComponent \<Rightarrow> nat \<Rightarrow> nat \<Rightarrow> DistTableBuild \<Rightarrow> DistTableBuild" where
  "symPosExact c asymUnitMargin cmpt i j b =
     (let p = posExact c cmpt i j
      in addPosition (useAsymUnit c) (nearExact c asymUnitMargin p) (insideExact c p) i j p b)"

text \<open>
  The first pass: for every component, \<^verbatim>\<open>mvDistTableSq[i].mIndex=i\<close> and then the loop
  over the symmetrics.
\<close>

definition listPositions ::
  "UnitCell \<Rightarrow> bool \<Rightarrow> real \<Rightarrow> ScatteringComponent list \<Rightarrow> DistTableBuild \<Rightarrow> DistTableBuild" where
  "listPositions c fast asymUnitMargin comps b =
     fold (\<lambda>i b.
             fold (\<lambda>j. if fast then symPosFast c asymUnitMargin (comps ! i) i j
                        else symPosExact c asymUnitMargin (comps ! i) i j)
               [0..<nbSymmetrics c]
               (case b of (vPos, vUniqueIndex, tbl) \<Rightarrow>
                  (vPos, vUniqueIndex, tbl[i := (tbl ! i)\<lparr>mIndex := i\<rparr>])))
       [0..<length comps] b"

text \<open>
  The squared distance from the unique position \<open>u\<close> to the position \<open>p\<close>, \<^verbatim>\<open>fast=true\<close>:
  integer difference, mask, fold of the upper half, and the matrix scaled by
  \<^verbatim>\<open>1/FRAC2LONG\<close>, of which only the upper triangle is used.
\<close>

definition foldHalf :: "int \<Rightarrow> int" where
  "foldHalf xl = (if xl AND HALF_FRAC2LONG \<noteq> 0 then (NOT xl) AND HALF_FRAC2LONGMASK else xl)"

definition dist2Fast :: "UnitCell \<Rightarrow> DistTableInternalPosition \<Rightarrow> DistTableInternalPosition \<Rightarrow> real" where
  "dist2Fast c u p =
     (let M00 = orthMatrix c (0, 0) / of_int FRAC2LONG;
          M01 = orthMatrix c (0, 1) / of_int FRAC2LONG;
          M02 = orthMatrix c (0, 2) / of_int FRAC2LONG;
          M11 = orthMatrix c (1, 1) / of_int FRAC2LONG;
          M12 = orthMatrix c (1, 2) / of_int FRAC2LONG;
          M22 = orthMatrix c (2, 2) / of_int FRAC2LONG;
          xl = foldHalf ((mXL p - mXL u) AND FRAC2LONGMASK);
          yl = foldHalf ((mYL p - mYL u) AND FRAC2LONGMASK);
          zl = foldHalf ((mZL p - mZL u) AND FRAC2LONGMASK);
          x = M00 * of_int xl + M01 * of_int yl + M02 * of_int zl;
          y = M11 * of_int yl + M12 * of_int zl;
          z = M22 * of_int zl
      in x * x + y * y + z * z)"

text \<open>The same, \<^verbatim>\<open>fast=false\<close>.\<close>

definition foldExact :: "real \<Rightarrow> real" where
  "foldExact d =
     (let x = modf d; x1 = (if x < 0 then x + 1 else x) in if x1 > 0.5 then 1 - x1 else x1)"

definition dist2Exact :: "UnitCell \<Rightarrow> DistTableInternalPosition \<Rightarrow> DistTableInternalPosition \<Rightarrow> real" where
  "dist2Exact c u p =
     (case FractionalToOrthonormalCoords c
             (foldExact (mXr p - mXr u), foldExact (mYr p - mYr u), foldExact (mZr p - mZr u)) of
        (x, y, z) \<Rightarrow> x * x + y * y + z * z)"

text \<open>
  The second pass for component \<open>i\<close>: every position of \<^verbatim>\<open>vPos\<close> but the one at
  \<^verbatim>\<open>vUniqueIndex[i]\<close> is pushed, in order, on the neighbour list of \<open>i\<close>.
\<close>

definition neighboursOf ::
  "UnitCell \<Rightarrow> bool \<Rightarrow> DistTableInternalPosition list \<Rightarrow> nat \<Rightarrow> Neighbour list" where
  "neighboursOf c fast vPos u =
     map (\<lambda>j. \<lparr>mNeighbourIndex = mAtomIndex (vPos ! j),
               mNeighbourSymmetryIndex = mSymmetryIndex (vPos ! j),
               mDist2 = (if fast then dist2Fast c (vPos ! u) (vPos ! j)
                         else dist2Exact c (vPos ! u) (vPos ! j))\<rparr>)
       (filter (\<lambda>j. u \<noteq> j) [0..<length vPos])"

definition computeDistances :: "UnitCell \<Rightarrow> bool \<Rightarrow> nat \<Rightarrow> DistTableBuild \<Rightarrow> NeighbourHood list" where
  "computeDistances c fast nbComponent b =
     (case b of (vPos, vUniqueIndex, tbl) \<Rightarrow>
        fold (\<lambda>i tbl. tbl[i := (tbl ! i)\<lparr>mvNeighbour :=
                 mvNeighbour (tbl ! i) @ neighboursOf c fast vPos (vUniqueIndex ! i)\<rparr>])
          [0..<nbComponent] tbl)"

text \<open>
  \<^verbatim>\<open>mvDistTableSq.resize(nbComponent)\<close> keeps the leading entries and value-initialises
  new ones; then every neighbour list is cleared.
\<close>

definition NeighbourHood0 :: NeighbourHood where
  "NeighbourHood0 = \<lparr>mIndex = 0, mUniquePosSymmetryIndex = 0, mvNeighbour = []\<rparr>"

definition resizeTable :: "nat \<Rightarrow> NeighbourHood list \<Rightarrow> NeighbourHood list" where
  "resizeTable n tbl =
     map (\<lambda>nh. nh\<lparr>mvNeighbour := []\<rparr>) (take n tbl @ replicate (n - length tbl) NeighbourHood0)"

text \<open>The table that \<^verbatim>\<open>CalcDistTable\<close> builds when it does not return early.\<close>

definition buildDistTable ::
  "UnitCell \<Rightarrow> bool \<Rightarrow> real \<Rightarrow> ScatteringComponent list \<Rightarrow> NeighbourHood list \<Rightarrow> NeighbourHood list" where
  "buildDistTable c fast asymUnitMargin comps tbl =
     computeDistances c fast (length comps)
       (listPositions c fast asymUnitMargin comps
          ([], replicate (length comps) 0, resizeTable (length comps) tbl))"

section \<open>\<^verbatim>\<open>Crystal::CalcDynPopCorr\<close>\<close>

text \<open>
  The correction of component \<open>i\<close>: \<open>1\<close> without a scattering power; otherwise the
  distances of the neighbours with the same \<^verbatim>\<open>GetDynPopCorrIndex()\<close> and a squared distance
  below \<^verbatim>\<open>overlapDistSq\<close> are collected, and each adds its term to \<^verbatim>\<open>corr\<close>.
\<close>

definition overlapNeighbours ::
  "PowerStore \<Rightarrow> ScatteringComponent list \<Rightarrow> real \<Rightarrow> nat \<Rightarrow> Neighbour list \<Rightarrow> Neighbour list" where
  "overlapNeighbours P comps overlapDist i nbs =
     filter (\<lambda>nb. mpScattPow (comps ! mNeighbourIndex nb) \<noteq> 0
                 \<and> mDynPopCorrIndex (P (mpScattPow (comps ! i)))
                     = mDynPopCorrIndex (P (mpScattPow (comps ! mNeighbourIndex nb)))
                 \<and> overlapDist * overlapDist > mDist2 nb) nbs"

definition corrTerm :: "real \<Rightarrow> real \<Rightarrow> real \<Rightarrow> real" where
  "corrTerm overlapDist mergeDist d =
     (let dst = (if d - mergeDist < 0 then 0 else d - mergeDist)
      in \<bar>(overlapDist - dst - mergeDist) / (overlapDist - mergeDist)\<bar>)"

definition dynPopCorrOf ::
  "PowerStore \<Rightarrow> ScatteringComponent list \<Rightarrow> NeighbourHood list \<Rightarrow> real \<Rightarrow> real \<Rightarrow> nat \<Rightarrow> real" where
  "dynPopCorrOf P comps tbl overlapDist mergeDist i =
     (if mpScattPow (comps ! i) = 0 then 1
      else
        (let neighborsDist = map (\<lambda>nb. sqrt (mDist2 nb))
                               (overlapNeighbours P comps overlapDist i (mvNeighbour (tbl ! i)));
             corr = fold (\<lambda>d corr. corr + corrTerm overlapDist mergeDist d) neighborsDist 0
         in 1 / (1 + corr)))"

definition calcDynPopCorr ::
  "PowerStore \<Rightarrow> NeighbourHood list \<Rightarrow> real \<Rightarrow> real \<Rightarrow> ScatteringComponent list \<Rightarrow> ScatteringComponent list" where
  "calcDynPopCorr P tbl overlapDist mergeDist comps =
     map (\<lambda>i. (comps ! i)\<lparr>mDynPopCorr := dynPopCorrOf P comps tbl overlapDist mergeDist i\<rparr>)
       [0..<length comps]"

definition ResetDynPopCorr :: "Crystal \<Rightarrow> Crystal" where
  "ResetDynPopCorr s =
     s\<lparr>mClockDynPopCorr := 0,
       mScattCompList := map (\<lambda>sc. sc\<lparr>mDynPopCorr := 1\<rparr>) (mScattCompList s)\<rparr>"

section \<open>The lazily updated component list and distance table\<close>

text \<open>
  \<^verbatim>\<open>GetScatteringComponentList\<close> calls \<^verbatim>\<open>CalcDynPopCorr\<close>, which calls
  \<^verbatim>\<open>CalcDistTable\<close>, which calls \<^verbatim>\<open>GetScatteringComponentList\<close> again. The first
  argument bounds the depth of that recursion: a call that would exceed it returns
  \<open>None\<close>.
\<close>

fun GetScatteringComponentList :: "nat \<Rightarrow> UnitCell \<Rightarrow> PowerStore \<Rightarrow> Crystal \<Rightarrow> Crystal option"
  and CalcDistTable :: "nat \<Rightarrow> UnitCell \<Rightarrow> PowerStore \<Rightarrow> bool \<Rightarrow> real \<Rightarrow> Crystal \<Rightarrow> Crystal option"
  and CalcDynPopCorr :: "nat \<Rightarrow> UnitCell \<Rightarrow> PowerStore \<Rightarrow> real \<Rightarrow> real \<Rightarrow> Crystal \<Rightarrow> Crystal option"
where
  "GetScatteringComponentList 0 c P s = None"
| "GetScatteringComponentList (Suc k) c P s =
     (if mClockScattCompList s > mClockMaster s then Some s
      else if list_ex (\<lambda>sc. mClockScattCompList s < mClockScatterer sc) (mScattererRegistry s)
      then (let s1 = Click (\<lambda>t x. x\<lparr>mClockScattCompList := t\<rparr>)
                       (s\<lparr>mScattCompList := concat (map scattCompList (mScattererRegistry s))\<rparr>)
            in if mUseDynPopCorr s1 = 1 then CalcDynPopCorr k c P 1 0.5 s1
               else Some (ResetDynPopCorr s1))
      else Some s)"
| "CalcDistTable k c P fast asymUnitMargin s =
     (case GetScatteringComponentList k c P s of
        None \<Rightarrow> None
      | Some s1 \<Rightarrow>
          if mDistTableClock s1 > mClockScattCompList s1 \<and> mDistTableClock s1 > mClockMetricMatrix s1
          then Some s1
          else Some (Click (\<lambda>t x. x\<lparr>mDistTableClock := t\<rparr>)
                 (s1\<lparr>mvDistTableSq :=
                       buildDistTable c fast asymUnitMargin (mScattCompList s1) (mvDistTableSq s1)\<rparr>)))"
| "CalcDynPopCorr k c P overlapDist mergeDist s =
     (case CalcDistTable k c P True overlapDist s of
        None \<Rightarrow> None
      | Some s1 \<Rightarrow>
          if mClockDynPopCorr s1 > mDistTableClock s1 then Some s1
          else Some (Click (\<lambda>t x. x\<lparr>mClockDynPopCorr := t\<rparr>)
                 (s1\<lparr>mScattCompList :=
                       calcDynPopCorr P (mvDistTableSq s1) overlapDist mergeDist (mScattCompList s1)\<rparr>)))"

section \<open>\<^verbatim>\<open>Crystal::GetMinDistanceTable\<close>\<close>

text \<open>
  A \<^verbatim>\<open>CrystMatrix_REAL\<close> is a function of the pair of indices; the matrix proper is its
  restriction to indices below \<^verbatim>\<open>nbComponent\<close>.
\<close>

type_synonym CrystMatrix_REAL = "nat \<times> nat \<Rightarrow> real"

definition minDistQualifies :: "real \<Rightarrow> NeighbourHood \<Rightarrow> Neighbour \<Rightarrow> bool" where
  "minDistQualifies mn nh nb \<longleftrightarrow>
     mDist2 nb > mn
     \<or> (mIndex nh \<noteq> mNeighbourIndex nb \<and> mUniquePosSymmetryIndex nh \<noteq> mNeighbourSymmetryIndex nb)"

definition minDistScan :: "real \<Rightarrow> NeighbourHood \<Rightarrow> nat \<Rightarrow> Neighbour \<Rightarrow> CrystMatrix_REAL \<Rightarrow> CrystMatrix_REAL" where
  "minDistScan mn nh i nb M =
     (let tmp = mDist2 nb; dst = M (i, mNeighbourIndex nb)
      in if tmp < dst \<and> minDistQualifies mn nh nb then M((i, mNeighbourIndex nb) := tmp) else M)"

definition minDistFill :: "real \<Rightarrow> NeighbourHood list \<Rightarrow> nat \<Rightarrow> CrystMatrix_REAL" where
  "minDistFill mn tbl nbComponent =
     fold (\<lambda>i M. fold (minDistScan mn (tbl ! i) i) (mvNeighbour (tbl ! i)) M)
       [0..<nbComponent] (\<lambda>ij. 10000)"

definition minDistMirrorCell :: "nat \<Rightarrow> nat \<Rightarrow> CrystMatrix_REAL \<Rightarrow> CrystMatrix_REAL" where
  "minDistMirrorCell i j M =
     (let M1 = (if 9999 < M (i, j) then M((i, j) := 0) else M);
          M2 = M1((i, j) := sqrt (M1 (i, j)))
      in M2((j, i) := M2 (i, j)))"

definition minDistMirror :: "nat \<Rightarrow> CrystMatrix_REAL \<Rightarrow> CrystMatrix_REAL" where
  "minDistMirror nbComponent M =
     fold (\<lambda>i M. fold (minDistMirrorCell i) [0..<Suc i] M) [0..<nbComponent] M"

definition minDistanceTable :: "NeighbourHood list \<Rightarrow> nat \<Rightarrow> real \<Rightarrow> CrystMatrix_REAL" where
  "minDistanceTable tbl nbComponent minDistance =
     (let mn = (if minDistance < 0 then - 1 else minDistance * minDistance)
      in minDistMirror nbComponent (minDistFill mn tbl nbComponent))"

text \<open>
  \<^verbatim>\<open>GetMinDistanceTable\<close> first calls \<^verbatim>\<open>CalcDistTable(true)\<close>; the default value of the
  margin is declared outside the sources at hand and is the parameter \<open>defaultMargin\<close>.
\<close>

definition GetMinDistanceTable ::
  "nat \<Rightarrow> UnitCell \<Rightarrow> PowerStore \<Rightarrow> real \<Rightarrow> real \<Rightarrow> Crystal \<Rightarrow> (CrystMatrix_REAL \<times> Crystal) option" where
  "GetMinDistanceTable k c P defaultMargin minDistance s =
     (case CalcDistTable k c P True defaultMargin s of
        None \<Rightarrow> None
      | Some s1 \<Rightarrow>
          Some (minDistanceTable (mvDistTableSq s1) (length (mScattCompList s1)) minDistance, s1))"

section \<open>\<^verbatim>\<open>Crystal::GetBumpMergeCost\<close>\<close>

definition bumpMergeTerm :: "BumpMergePar \<Rightarrow> real \<Rightarrow> real" where
  "bumpMergeTerm par d2 =
     (let tmp = (if mCanOverlap par
                 then 0.5 * sin (pi * (1 - sqrt (d2 / bmDist2 par))) / 0.1
                 else tan (pi * 0.49999 * (1 - sqrt (d2 / bmDist2 par))) / 0.1)
      in tmp * tmp)"

text \<open>The body of the inner loop: look the pair up, skip or add.\<close>

definition bumpMergeStep ::
  "VBumpMergePar \<Rightarrow> ScatteringComponent list \<Rightarrow> ScatteringPowerPtr \<Rightarrow> Neighbour \<Rightarrow> real \<Rightarrow> real" where
  "bumpMergeStep pars comps i1 neigh cost =
     (let i2 = mpScattPow (comps ! mNeighbourIndex neigh)
      in case (if i1 < i2 then map_of pars (i1, i2) else map_of pars (i2, i1)) of
           None \<Rightarrow> cost
         | Some par \<Rightarrow>
             if mDist2 neigh > bmDist2 par then cost
             else cost + bumpMergeTerm par (mDist2 neigh))"

definition bumpMergeSum ::
  "VBumpMergePar \<Rightarrow> ScatteringComponent list \<Rightarrow> NeighbourHood list \<Rightarrow> real" where
  "bumpMergeSum pars comps tbl =
     fold (\<lambda>pos cost. fold (bumpMergeStep pars comps (mpScattPow (comps ! mIndex pos)))
                         (mvNeighbour pos) cost) tbl 0"

definition GetBumpMergeCost :: "nat \<Rightarrow> UnitCell \<Rightarrow> PowerStore \<Rightarrow> Crystal \<Rightarrow> (real \<times> Crystal) option" where
  "GetBumpMergeCost k c P s =
     (if mvBumpMergePar s = [] then Some (0, s)
      else if mBumpMergeScale s < 1 / 100000 then Some (0, s)
      else case CalcDistTable k c P True 3 s of
             None \<Rightarrow> None
           | Some s1 \<Rightarrow>
               if mBumpMergeCostClock s1 > mBumpMergeParClock s1
                  \<and> mBumpMergeCostClock s1 > mDistTableClock s1
               then Some (mBumpMergeCost s1 * mBumpMergeScale s1, s1)
               else (let s2 = Click (\<lambda>t x. x\<lparr>mBumpMergeCostClock := t\<rparr>)
                                (s1\<lparr>mBumpMergeCost :=
                                      bumpMergeSum (mvBumpMergePar s1) (mScattCompList s1) (mvDistTableSq s1)
                                      * of_nat (nbSymmetrics c)\<rparr>)
                     in Some (mBumpMergeCost s2 * mBumpMergeScale s2, s2)))"

section \<open>\<^verbatim>\<open>Crystal::CalcBondValenceSum\<close> and \<^verbatim>\<open>Crystal::GetBondValenceCost\<close>\<close>

text \<open>
  The body of the inner loop of \<^verbatim>\<open>CalcBondValenceSum\<close> on the pair \<^verbatim>\<open>(val, nb)\<close>, the
  valence of one component, and the loop over the components that fills
  \<^verbatim>\<open>mvBondValenceCalc\<close>.
\<close>

definition bondValenceStep ::
  "VBondValenceRo \<Rightarrow> ScatteringComponent list \<Rightarrow> ScatteringPowerPtr \<Rightarrow> Neighbour \<Rightarrow> real \<times> nat \<Rightarrow> real \<times> nat" where
  "bondValenceStep ros comps pow1 neigh acc =
     (case acc of (val, nb) \<Rightarrow>
      let dst = sqrt (mDist2 neigh);
          occup = mOccupancy (comps ! mNeighbourIndex neigh) * mDynPopCorr (comps ! mNeighbourIndex neigh);
          pow2 = mpScattPow (comps ! mNeighbourIndex neigh)
      in case (if pow1 < pow2 then map_of ros (pow1, pow2) else map_of ros (pow2, pow1)) of
           None \<Rightarrow> (val, nb)
         | Some ro \<Rightarrow> (val + occup * exp ((ro - dst) / 0.37), nb + 1))"

definition bondValenceOf ::
  "VBondValenceRo \<Rightarrow> ScatteringComponent list \<Rightarrow> NeighbourHood list \<Rightarrow> nat \<Rightarrow> real \<times> nat" where
  "bondValenceOf ros comps tbl i =
     fold (bondValenceStep ros comps (mpScattPow (comps ! i))) (mvNeighbour (tbl ! i)) (0, 0)"

definition calcBondValenceSum ::
  "VBondValenceRo \<Rightarrow> ScatteringComponent list \<Rightarrow> NeighbourHood list \<Rightarrow> (nat \<times> real) list" where
  "calcBondValenceSum ros comps tbl =
     fold (\<lambda>i calc. case bondValenceOf ros comps tbl i of
                       (val, nb) \<Rightarrow> if nb \<noteq> 0 then AList.update i val calc else calc)
       [0..<length comps] []"

definition CalcBondValenceSum :: "nat \<Rightarrow> UnitCell \<Rightarrow> PowerStore \<Rightarrow> Crystal \<Rightarrow> Crystal option" where
  "CalcBondValenceSum k c P s =
     (if mvBondValenceRo s = [] then Some s
      else case CalcDistTable k c P True 5 s of
             None \<Rightarrow> None
           | Some s1 \<Rightarrow>
               if mBondValenceCalcClock s1 > mDistTableClock s1
                  \<and> mBondValenceCalcClock s1 > mBondValenceParClock s1
               then Some s1
               else Some (Click (\<lambda>t x. x\<lparr>mBondValenceCalcClock := t\<rparr>)
                      (s1\<lparr>mvBondValenceCalc :=
                            calcBondValenceSum (mvBondValenceRo s1) (mScattCompList s1) (mvDistTableSq s1)\<rparr>)))"

definition bondValenceCostSum :: "PowerStore \<Rightarrow> ScatteringComponent list \<Rightarrow> (nat \<times> real) list \<Rightarrow> real" where
  "bondValenceCostSum P comps calc =
     fold (\<lambda>pos cost. let a = snd pos - mFormalCharge (P (mpScattPow (comps ! fst pos)))
                      in cost + a * a) calc 0"

definition GetBondValenceCost :: "nat \<Rightarrow> UnitCell \<Rightarrow> PowerStore \<Rightarrow> Crystal \<Rightarrow> (real \<times> Crystal) option" where
  "GetBondValenceCost k c P s =
     (if mBondValenceCostScale s < 1 / 100000 then Some (0, s)
      else if mvBondValenceRo s = []
      then (let s1 = s\<lparr>mBondValenceCost := 0\<rparr>
            in Some (mBondValenceCost s1 * mBondValenceCostScale s1, s1))
      else case CalcBondValenceSum k c P s of
             None \<Rightarrow> None
           | Some s1 \<Rightarrow>
               if mBondValenceCostClock s1 > mBondValenceCalcClock s1
                  \<and> mBondValenceCostClock s1 > mMasterClockScatteringPower s1
               then Some (mBondValenceCost s1 * mBondValenceCostScale s1, s1)
               else (let s2 = Click (\<lambda>t x. x\<lparr>mBondValenceCostClock := t\<rparr>)
                                (s1\<lparr>mBondValenceCost :=
                                      bondValenceCostSum P (mScattCompList s1) (mvBondValenceCalc s1)\<rparr>)
                     in Some (mBondValenceCost s2 * mBondValenceCostScale s2, s2)))"

section \<open>\<^verbatim>\<open>Crystal::GetLogLikelihood\<close>\<close>

text \<open>
  \<^verbatim>\<open>return this->GetBumpMergeCost()+this->GetBondValenceCost();\<close> C++ leaves open which
  operand of \<open>+\<close> is evaluated first, and both calls update the caches: \<open>bumpFirst\<close>
  says which one the compiler chose.
\<close>

definition GetLogLikelihood :: "bool \<Rightarrow> nat \<Rightarrow> UnitCell \<Rightarrow> PowerStore \<Rightarrow> Crystal \<Rightarrow> (real \<times> Crystal) option" where
  "GetLogLikelihood bumpFirst k c P s =
     (if bumpFirst
      then (case GetBumpMergeCost k c P s of
              None \<Rightarrow> None
            | Some (bm, s1) \<Rightarrow>
                (case GetBondValenceCost k c P s1 of
                   None \<Rightarrow> None
                 | Some (bv, s2) \<Rightarrow> Some (bm + bv, s2)))
      else (case GetBondValenceCost k c P s of
              None \<Rightarrow> None
            | Some (bv, s1) \<Rightarrow>
                (case GetBumpMergeCost k c P s1 of
                   None \<Rightarrow> None
                 | Some (bm, s2) \<Rightarrow> Some (bm + bv, s2))))"

text \<open>
  What the second pass of \<^verbatim>\<open>GetMinDistanceTable\<close> makes of the value \<open>v\<close> of a cell:
  \<^verbatim>\<open>if(9999.<v) v=0; v=sqrt(v);\<close>
\<close>

definition reported :: "real \<Rightarrow> real" where
  "reported v = sqrt (if 9999 < v then 0 else v)"

section \<open>Example crystals\<close>

text \<open>
  A cubic cell of edge \<open>a\<close> in space group P1 (one symmetric position, the asymmetric unit
  is the whole cell), and one with an inversion centre at the origin (two symmetric
  positions), whose asymmetric unit is bounded by \<open>xmax\<close> along \<open>x\<close>.
\<close>

definition cellP1 :: "real \<Rightarrow> UnitCell" where
  "cellP1 a =
     \<lparr>nbSymmetrics = 1, symmetric = (\<lambda>j v. v),
      asymXmax = 1, asymYmax = 1, asymZmax = 1,
      latticePar0 = a, latticePar1 = a, latticePar2 = a,
      orthMatrix = (\<lambda>rc. if fst rc = snd rc then a else 0)\<rparr>"

definition cellInv :: "real \<Rightarrow> real \<Rightarrow> UnitCell" where
  "cellInv a xmax =
     \<lparr>nbSymmetrics = 2,
      symmetric = (\<lambda>j v. if j = 0 then v else (- fst v, - fst (snd v), - snd (snd v))),
      asymXmax = xmax, asymYmax = 1, asymZmax = 1,
      latticePar0 = a, latticePar1 = a, latticePar2 = a,
      orthMatrix = (\<lambda>rc. if fst rc = snd rc then a else 0)\<rparr>"

text \<open>
  An atom with full occupancy, a store in which the scattering power at address \<open>p\<close> has
  \<^verbatim>\<open>GetDynPopCorrIndex()\<close> \<open>p\<close> and formal charge \<open>q p\<close>, and the crystal obtained from a
  new one by registering a single scatterer that holds the given components (its clock
  has clicked once).
\<close>

definition atomAt :: "real \<Rightarrow> real \<Rightarrow> real \<Rightarrow> ScatteringPowerPtr \<Rightarrow> ScatteringComponent" where
  "atomAt x y z p = \<lparr>mX = x, mY = y, mZ = z, mOccupancy = 1, mpScattPow = p, mDynPopCorr = 1\<rparr>"

definition powersWith :: "(ScatteringPowerPtr \<Rightarrow> real) \<Rightarrow> PowerStore" where
  "powersWith q p = \<lparr>mDynPopCorrIndex = int p, mFormalCharge = q p\<rparr>"

definition crystalOf :: "ScatteringComponent list \<Rightarrow> Crystal" where
  "crystalOf comps =
     newCrystal\<lparr>msTick := 1,
                mScattererRegistry := [\<lparr>mClockScatterer = 1, scattCompList = comps\<rparr>]\<rparr>"

text \<open>
  Two atoms of different species in a cell of edge \<open>400\<close> with an inversion centre whose
  asymmetric unit is taken to be the whole cell, and their distance table: every squared
  distance in it exceeds \<open>10000\<close>.
\<close>

definition farAtoms :: "ScatteringComponent list" where
  "farAtoms = [atomAt (1/4) (1/4) (1/4) 1, atomAt 0 0 0 2]"

definition farTable :: "NeighbourHood list" where
  "farTable = buildDistTable (cellInv 400 1) True 4 farAtoms []"

section \<open>The costs as the specification words them\<close>

text \<open>
  The bump-merge cost following the specification (section 4.3): the neighbour pairs
  \<open>(i, neighbour)\<close> of the table; a pair qualifies when its species pair is in the table of
  parameters and its squared distance is below the threshold of that pair; the penalty of
  a qualifying pair is computed from \<open>d = sqrt squaredDistance\<close> and the configured
  minimum distance \<open>dmin\<close>; the sum is multiplied by the multiplicity and by the scale, and
  the cost is \<open>0\<close> when no parameters are configured or the scale is below \<open>1e-5\<close>.
\<close>

definition neighbourPairs :: "NeighbourHood list \<Rightarrow> (nat \<times> Neighbour) list" where
  "neighbourPairs tbl = concat (map (\<lambda>pos. map (\<lambda>nb. (mIndex pos, nb)) (mvNeighbour pos)) tbl)"

definition pairPar ::
  "VBumpMergePar \<Rightarrow> ScatteringComponent list \<Rightarrow> nat \<times> Neighbour \<Rightarrow> BumpMergePar option" where
  "pairPar pars comps e =
     map_of pars (pairKey (mpScattPow (comps ! fst e)) (mpScattPow (comps ! mNeighbourIndex (snd e))))"

definition bumpMergeQualifies ::
  "VBumpMergePar \<Rightarrow> ScatteringComponent list \<Rightarrow> nat \<times> Neighbour \<Rightarrow> bool" where
  "bumpMergeQualifies pars comps e =
     (case pairPar pars comps e of None \<Rightarrow> False | Some par \<Rightarrow> mDist2 (snd e) < bmDist2 par)"

definition bumpMergePenalty :: "bool \<Rightarrow> real \<Rightarrow> real \<Rightarrow> real" where
  "bumpMergePenalty canOverlap d dmin =
     (if canOverlap then (0.5 * sin (pi * (1 - d / dmin)) / 0.1)\<^sup>2
      else (tan (pi * 0.49999 * (1 - d / dmin)) / 0.1)\<^sup>2)"

definition bumpMergeCostSpec ::
  "VBumpMergePar \<Rightarrow> ScatteringComponent list \<Rightarrow> NeighbourHood list \<Rightarrow> nat \<Rightarrow> real \<Rightarrow> real" where
  "bumpMergeCostSpec pars comps tbl multiplicity scale =
     (if pars = [] \<or> scale < 1 / 100000 then 0
      else (\<Sum>e \<leftarrow> filter (bumpMergeQualifies pars comps) (neighbourPairs tbl).
              bumpMergePenalty (mCanOverlap (the (pairPar pars comps e)))
                (sqrt (mDist2 (snd e))) (sqrt (bmDist2 (the (pairPar pars comps e)))))
           * of_nat multiplicity * scale)"

text \<open>
  The neighbours of component \<open>i\<close> that contribute a bond: those whose species pair has a
  reference length; and the reference length of such a neighbour.
\<close>

definition bondRo ::
  "VBondValenceRo \<Rightarrow> ScatteringComponent list \<Rightarrow> nat \<Rightarrow> Neighbour \<Rightarrow> real option" where
  "bondRo ros comps i nb =
     map_of ros (pairKey (mpScattPow (comps ! i)) (mpScattPow (comps ! mNeighbourIndex nb)))"

definition bondNeighbours ::
  "VBondValenceRo \<Rightarrow> ScatteringComponent list \<Rightarrow> NeighbourHood list \<Rightarrow> nat \<Rightarrow> Neighbour list" where
  "bondNeighbours ros comps tbl i =
     filter (\<lambda>nb. bondRo ros comps i nb \<noteq> None) (mvNeighbour (tbl ! i))"

text \<open>
  The valence sum of component \<open>i\<close> as claim C7 words it, with the nominal occupancy of the
  neighbour as weight, and as the code computes it, with the occupancy times the dynamical
  occupancy correction.
\<close>

definition valenceSumNominal ::
  "VBondValenceRo \<Rightarrow> ScatteringComponent list \<Rightarrow> NeighbourHood list \<Rightarrow> nat \<Rightarrow> real" where
  "valenceSumNominal ros comps tbl i =
     (\<Sum>nb \<leftarrow> bondNeighbours ros comps tbl i.
        mOccupancy (comps ! mNeighbourIndex nb)
        * exp ((the (bondRo ros comps i nb) - sqrt (mDist2 nb)) / 0.37))"

definition valenceSumCorrected ::
  "VBondValenceRo \<Rightarrow> ScatteringComponent list \<Rightarrow> NeighbourHood list \<Rightarrow> nat \<Rightarrow> real" where
  "valenceSumCorrected ros comps tbl i =
     (\<Sum>nb \<leftarrow> bondNeighbours ros comps tbl i.
        mOccupancy (comps ! mNeighbourIndex nb) * mDynPopCorr (comps ! mNeighbourIndex nb)
        * exp ((the (bondRo ros comps i nb) - sqrt (mDist2 nb)) / 0.37))"

text \<open>The summand of \<^verbatim>\<open>GetBumpMergeCost\<close> for one neighbour pair, \<open>0\<close> when the pair is skipped.\<close>

definition stepTerm :: "VBumpMergePar \<Rightarrow> ScatteringComponent list \<Rightarrow> nat \<times> Neighbour \<Rightarrow> real" where
  "stepTerm pars comps e =
     (case pairPar pars comps e of
        None \<Rightarrow> 0
      | Some par \<Rightarrow> if mDist2 (snd e) > bmDist2 par then 0 else bumpMergeTerm par (mDist2 (snd e)))"



definition bondedCrystal :: Crystal where
  "bondedCrystal =
     AddBondValenceRo 1 2 2 (crystalOf [atomAt 0 0 0 1, atomAt (1/5) 0 0 2, atomAt (1/5) 0 0 2])"

section \<open>Clocks and caches\<close>

text \<open>
  The part of the state that \<^verbatim>\<open>GetScatteringComponentList\<close>, \<^verbatim>\<open>CalcDistTable\<close> and
  \<^verbatim>\<open>CalcDynPopCorr\<close> never write: the state with the fields they do write blanked.
\<close>

definition lazyFrame :: "Crystal \<Rightarrow> Crystal" where
  "lazyFrame s =
     s\<lparr>msTick := 0, mScattCompList := [], mClockScattCompList := 0, mClockDynPopCorr := 0,
       mvDistTableSq := [], mDistTableClock := 0\<rparr>"

text \<open>No clock is ahead of the global counter: every clock got its value from a click.\<close>

definition clocksBehind :: "Crystal \<Rightarrow> bool" where
  "clocksBehind s \<longleftrightarrow>
     mClockMaster s \<le> msTick s \<and> mClockScattCompList s \<le> msTick s
     \<and> mClockDynPopCorr s \<le> msTick s \<and> mDistTableClock s \<le> msTick s
     \<and> mClockMetricMatrix s \<le> msTick s
     \<and> mBumpMergeParClock s \<le> msTick s \<and> mBumpMergeCostClock s \<le> msTick s
     \<and> mBondValenceParClock s \<le> msTick s \<and> mBondValenceCalcClock s \<le> msTick s
     \<and> mBondValenceCostClock s \<le> msTick s \<and> mMasterClockScatteringPower s \<le> msTick s
     \<and> list_all (\<lambda>sc. mClockScatterer sc \<le> msTick s) (mScattererRegistry s)"

text \<open>
  The tests by which each function decides to reuse its cache: the component list, the
  distance table, the bump-merge cost, the bond valence sums and the bond valence cost.
\<close>

definition listFresh :: "Crystal \<Rightarrow> bool" where
  "listFresh s \<longleftrightarrow>
     mClockScattCompList s > mClockMaster s
     \<or> \<not> list_ex (\<lambda>sc. mClockScattCompList s < mClockScatterer sc) (mScattererRegistry s)"

definition tableFresh :: "Crystal \<Rightarrow> bool" where
  "tableFresh s \<longleftrightarrow>
     mDistTableClock s > mClockScattCompList s \<and> mDistTableClock s > mClockMetricMatrix s"

definition bumpCostFresh :: "Crystal \<Rightarrow> bool" where
  "bumpCostFresh s \<longleftrightarrow>
     mBumpMergeCostClock s > mBumpMergeParClock s \<and> mBumpMergeCostClock s > mDistTableClock s"

definition valenceFresh :: "Crystal \<Rightarrow> bool" where
  "valenceFresh s \<longleftrightarrow>
     mBondValenceCalcClock s > mDistTableClock s \<and> mBondValenceCalcClock s > mBondValenceParClock s"

definition valenceCostFresh :: "Crystal \<Rightarrow> bool" where
  "valenceCostFresh s \<longleftrightarrow>
     mBondValenceCostClock s > mBondValenceCalcClock s
     \<and> mBondValenceCostClock s > mMasterClockScatteringPower s"

text \<open>
  What a call of \<^verbatim>\<open>GetScatteringComponentList\<close>, and of \<^verbatim>\<open>CalcDistTable\<close> or
  \<^verbatim>\<open>CalcDynPopCorr\<close>, leaves behind: the rest of the state untouched, the counter not
  decreased and, when no clock was ahead of the counter, the caches it is in charge of
  fresh.
\<close>

definition listDone :: "Crystal \<Rightarrow> Crystal \<Rightarrow> bool" where
  "listDone s s' \<longleftrightarrow>
     lazyFrame s' = lazyFrame s \<and> msTick s \<le> msTick s'
     \<and> (clocksBehind s \<longrightarrow> clocksBehind s' \<and> listFresh s')"

definition tableDone :: "Crystal \<Rightarrow> Crystal \<Rightarrow> bool" where
  "tableDone s s' \<longleftrightarrow>
     lazyFrame s' = lazyFrame s \<and> msTick s \<le> msTick s'
     \<and> (clocksBehind s \<longrightarrow> clocksBehind s' \<and> listFresh s' \<and> tableFresh s')"

text \<open>
  A crystal with two atoms of different species \<open>2\<close> apart, a minimum distance of \<open>3\<close>
  configured for the pair of species and a reference bond length of \<open>2\<close>.
\<close>

definition bumpedCrystal :: Crystal where
  "bumpedCrystal =
     AddBondValenceRo 1 2 2
       (SetBumpMergeDistance4 1 2 3 False (crystalOf [atomAt 0 0 0 1, atomAt (1/5) 0 0 2]))"

section \<open>The unique position of a component\<close>

text \<open>
  Symmetric \<open>j\<close> of a component becomes its unique position when the else-branch runs
  (no restriction), or when it is retained and passes the test against the strict
  limits. \<open>lastBelow q n\<close> is the greatest \<open>j < n\<close> with \<open>q j\<close>, if there is one.
\<close>

definition becomesUnique :: "UnitCell \<Rightarrow> bool \<Rightarrow> real \<Rightarrow> ScatteringComponent \<Rightarrow> nat \<Rightarrow> nat \<Rightarrow> bool" where
  "becomesUnique c fast asymUnitMargin cmpt i j \<longleftrightarrow>
     (if useAsymUnit c
      then (if fast
            then nearFast c asymUnitMargin (posFast c cmpt i j) \<and> insideFast c (posFast c cmpt i j)
            else nearExact c asymUnitMargin (posExact c cmpt i j) \<and> insideExact c (posExact c cmpt i j))
      else True)"

primrec lastBelow :: "(nat \<Rightarrow> bool) \<Rightarrow> nat \<Rightarrow> nat option" where
  "lastBelow q 0 = None"
| "lastBelow q (Suc n) = (if q n then Some n else lastBelow q n)"

definition setUnique :: "(nat \<Rightarrow> bool) \<Rightarrow> nat \<Rightarrow> NeighbourHood \<Rightarrow> NeighbourHood" where
  "setUnique q n nh =
     (case lastBelow q n of None \<Rightarrow> nh | Some j \<Rightarrow> nh\<lparr>mUniquePosSymmetryIndex := j\<rparr>)"

section \<open>Comparing the two paths of \<^verbatim>\<open>CalcDistTable\<close>\<close>

text \<open>
  The fast path reads the upper triangle of the matrix only: the paths can agree only
  for a matrix whose lower triangle is \<open>0\<close>. The bound on the difference of two squared
  distances is three quanta of \<open>1/2^14\<close> times the sum of the squares of the absolute row
  sums of the matrix.
\<close>

definition upperTriangular :: "UnitCell \<Rightarrow> bool" where
  "upperTriangular c \<longleftrightarrow>
     orthMatrix c (1, 0) = 0 \<and> orthMatrix c (2, 0) = 0 \<and> orthMatrix c (2, 1) = 0"

definition rowSum :: "UnitCell \<Rightarrow> nat \<Rightarrow> real" where
  "rowSum c r = \<bar>orthMatrix c (r, 0)\<bar> + \<bar>orthMatrix c (r, 1)\<bar> + \<bar>orthMatrix c (r, 2)\<bar>"

definition quantBound :: "UnitCell \<Rightarrow> real" where
  "quantBound c = 3 / 16384 * ((rowSum c 0)\<^sup>2 + (rowSum c 1)\<^sup>2 + (rowSum c 2)\<^sup>2)"

text \<open>
  Both paths make the same choices for symmetric \<open>j\<close> of component \<open>i\<close>: the tests against
  the limits with margin and against the strict limits have the same outcome on the
  quantized and on the exact coordinates. Without restriction nothing is tested.
\<close>

definition sameChoice :: "UnitCell \<Rightarrow> real \<Rightarrow> ScatteringComponent \<Rightarrow> nat \<Rightarrow> nat \<Rightarrow> bool" where
  "sameChoice c asymUnitMargin cmpt i j \<longleftrightarrow>
     \<not> useAsymUnit c
     \<or> (nearFast c asymUnitMargin (posFast c cmpt i j) = nearExact c asymUnitMargin (posExact c cmpt i j)
        \<and> insideFast c (posFast c cmpt i j) = insideExact c (posExact c cmpt i j))"

definition sameChoices :: "UnitCell \<Rightarrow> real \<Rightarrow> ScatteringComponent list \<Rightarrow> bool" where
  "sameChoices c asymUnitMargin comps \<longleftrightarrow>
     (\<forall>i < length comps. \<forall>j < nbSymmetrics c. sameChoice c asymUnitMargin (comps ! i) i j)"

text \<open>
  A position of the fast path and one of the exact path that stand for the same point:
  same component, same symmetric, coordinates quantized and reduced from the same reals.
\<close>

definition samePoint :: "DistTableInternalPosition \<Rightarrow> DistTableInternalPosition \<Rightarrow> bool" where
  "samePoint pf pe \<longleftrightarrow>
     (\<exists>i j sx sy sz.
        pf = DistTableInternalPositionL i j (quantize sx) (quantize sy) (quantize sz)
        \<and> pe = DistTableInternalPositionR i j (reduce01 sx) (reduce01 sy) (reduce01 sz))"

text \<open>
  Two neighbour records, and two neighbourhoods, that agree up to quantization: the same
  indices, and squared distances that differ by at most the bound.
\<close>

definition neighbourClose :: "UnitCell \<Rightarrow> Neighbour \<Rightarrow> Neighbour \<Rightarrow> bool" where
  "neighbourClose c nf ne \<longleftrightarrow>
     mNeighbourIndex nf = mNeighbourIndex ne
     \<and> mNeighbourSymmetryIndex nf = mNeighbourSymmetryIndex ne
     \<and> \<bar>mDist2 nf - mDist2 ne\<bar> \<le> quantBound c"

definition hoodClose :: "UnitCell \<Rightarrow> NeighbourHood \<Rightarrow> NeighbourHood \<Rightarrow> bool" where
  "hoodClose c hf he \<longleftrightarrow>
     mIndex hf = mIndex he \<and> mUniquePosSymmetryIndex hf = mUniquePosSymmetryIndex he
     \<and> list_all2 (neighbourClose c) (mvNeighbour hf) (mvNeighbour he)"

text \<open>The working states of the two first passes hold the same points in the same order.\<close>

definition buildsAgree :: "DistTableBuild \<Rightarrow> DistTableBuild \<Rightarrow> bool" where
  "buildsAgree bf be \<longleftrightarrow>
     list_all2 samePoint (fst bf) (fst be)
     \<and> fst (snd bf) = fst (snd be) \<and> snd (snd bf) = snd (snd be)
     \<and> list_all (\<lambda>u. u \<le> length (fst bf) - 1) (fst (snd bf))
     \<and> length (fst (snd bf)) = length (snd (snd bf))"

section \<open>The entries of the table of minimal distances\<close>

text \<open>
  The squared distances of the neighbour records of component \<open>a\<close> that point to component
  \<open>b\<close> and pass the test of the first pass of \<^verbatim>\<open>GetMinDistanceTable\<close>, and the smallest of
  them and of the value \<open>10000\<close> that every cell starts with.
\<close>

definition contactsOf :: "real \<Rightarrow> NeighbourHood list \<Rightarrow> nat \<Rightarrow> nat \<Rightarrow> real list" where
  "contactsOf mn tbl a b =
     map mDist2 (filter (\<lambda>nb. mNeighbourIndex nb = b \<and> minDistQualifies mn (tbl ! a) nb)
                   (mvNeighbour (tbl ! a)))"

definition nearestContact :: "real \<Rightarrow> NeighbourHood list \<Rightarrow> nat \<Rightarrow> nat \<Rightarrow> real" where
  "nearestContact mn tbl a b = Min (insert 10000 (set (contactsOf mn tbl a b)))"

text \<open>
  Two atoms of different species in a cell of edge \<open>10\<close> with an inversion centre, and their
  distance table: both images of both atoms are retained.
\<close>

definition nearAtoms :: "ScatteringComponent list" where
  "nearAtoms = [atomAt (1/16) 0 0 1, atomAt (1/4) (1/4) 0 2]"

definition nearTable :: "NeighbourHood list" where
  "nearTable = buildDistTable (cellInv 10 (1/2)) True 4 nearAtoms []"

section \<open>Coincident sites\<close>





definition zeroDistCrystal :: Crystal where
  "zeroDistCrystal =
     SetBumpMergeDistance 1 2 0 (crystalOf [atomAt (1/8) (1/4) (3/8) 1, atomAt (1/8) (1/4) (3/8) 2])"

definition mixedCrystal :: Crystal where
  "mixedCrystal =
     AddBondValenceRo 1 2 2
       (crystalOf [atomAt 0 0 0 1, atomAt (1/4) 0 0 2, atomAt (1/2) (1/2) (1/2) 3])"

section \<open>Evaluation of the model on concrete crystals\<close>

lemmas distTable_eval =
  buildDistTable_def listPositions_def computeDistances_def resizeTable_def NeighbourHood0_def
  symPosFast_def symPosExact_def posFast_def posExact_def nearFast_def nearExact_def
  insideFast_def insideExact_def quantize_def reduce01_def modf_def toLong_def
  addPosition_def useAsymUnit_def
  FRAC2LONG_def FRAC2LONGMASK_def HALF_FRAC2LONG_def HALF_FRAC2LONGMASK_def
  DistTableInternalPositionL_def DistTableInternalPositionR_def
  neighboursOf_def dist2Fast_def dist2Exact_def foldHalf_def foldExact_def
  FractionalToOrthonormalCoords_def Let_def numeral_2_eq_2

lemmas crystal_eval =
  crystalOf_def newCrystal_def atomAt_def powersWith_def cellP1_def cellInv_def Click_def
  calcDynPopCorr_def dynPopCorrOf_def overlapNeighbours_def corrTerm_def ResetDynPopCorr_def

lemmas minDist_eval =
  GetMinDistanceTable_def minDistanceTable_def minDistFill_def minDistMirror_def
  minDistMirrorCell_def minDistScan_def minDistQualifies_def

lemma farTable_value:
  "farTable =
     [\<lparr>mIndex = 0, mUniquePosSymmetryIndex = 1,
        mvNeighbour =
          [\<lparr>mNeighbourIndex = 0, mNeighbourSymmetryIndex = 0, mDist2 = 125798401875 / 1048576\<rparr>,
           \<lparr>mNeighbourIndex = 1, mNeighbourSymmetryIndex = 0, mDist2 = 30000\<rparr>,
           \<lparr>mNeighbourIndex = 1, mNeighbourSymmetryIndex = 1, mDist2 = 30000\<rparr>]\<rparr>,
      \<lparr>mIndex = 1, mUniquePosSymmetryIndex = 1,
        mvNeighbour =
          [\<lparr>mNeighbourIndex = 0, mNeighbourSymmetryIndex = 0, mDist2 = 30000\<rparr>,
           \<lparr>mNeighbourIndex = 0, mNeighbourSymmetryIndex = 1, mDist2 = 31441921875 / 1048576\<rparr>,
           \<lparr>mNeighbourIndex = 1, mNeighbourSymmetryIndex = 0, mDist2 = 0\<rparr>]\<rparr>]"
  by (simp add: farTable_def farAtoms_def crystal_eval distTable_eval)

declare GetScatteringComponentList.simps [simp del]
  CalcDistTable.simps [simp del] CalcDynPopCorr.simps [simp del]

lemmas SCL_simps = GetScatteringComponentList.simps

lemmas lazy_eval = GetScatteringComponentList.simps CalcDistTable.simps CalcDynPopCorr.simps


lemmas cost_eval =
  GetLogLikelihood_def GetBumpMergeCost_def GetBondValenceCost_def CalcBondValenceSum_def
  bumpedCrystal_def AddBondValenceRo_def RemoveBondValenceRo_def SetBumpMergeDistance_def
  SetBumpMergeDistance4_def BumpMergePar2_def
  bumpMergeSum_def bumpMergeStep_def bumpMergeTerm_def calcBondValenceSum_def bondValenceOf_def
  bondValenceStep_def bondValenceCostSum_def

lemma nearTable_value:
  "nearTable =
     [\<lparr>mIndex = 0, mUniquePosSymmetryIndex = 0,
        mvNeighbour =
          [\<lparr>mNeighbourIndex = 0, mNeighbourSymmetryIndex = 1, mDist2 = 104755225 / 67108864\<rparr>,
           \<lparr>mNeighbourIndex = 1, mNeighbourSymmetryIndex = 0, mDist2 = 625 / 64\<rparr>,
           \<lparr>mNeighbourIndex = 1, mNeighbourSymmetryIndex = 1, mDist2 = 537164825 / 33554432\<rparr>]\<rparr>,
      \<lparr>mIndex = 1, mUniquePosSymmetryIndex = 0,
        mvNeighbour =
          [\<lparr>mNeighbourIndex = 0, mNeighbourSymmetryIndex = 0, mDist2 = 327500825 / 33554432\<rparr>,
           \<lparr>mNeighbourIndex = 0, mNeighbourSymmetryIndex = 1, mDist2 = 537164825 / 33554432\<rparr>,
           \<lparr>mNeighbourIndex = 1, mNeighbourSymmetryIndex = 1, mDist2 = 1677312025 / 33554432\<rparr>]\<rparr>]"
  by (simp add: nearTable_def nearAtoms_def crystal_eval distTable_eval)


section \<open>Proofs: pairwise parameter maps\<close>

lemma filter_key_le1: "distinct (map fst al) \<Longrightarrow> length (filter (\<lambda>e. fst e = k) al) \<le> Suc 0"
proof (induction al)
  case Nil
  then show ?case by simp
next
  case (Cons e al)
  show ?case
  proof (cases "fst e = k")
    case True
    with Cons.prems have "k \<notin> fst ` set al" by auto
    then have "filter (\<lambda>e. fst e = k) al = []" by (auto simp: filter_empty_conv)
    with True show ?thesis by simp
  next
    case False
    with Cons show ?thesis by simp
  qed
qed

lemma canonicalMap_Nil: "canonicalMap []"
  by (simp add: canonicalMap_def)

lemma list_all_update:
  "list_all P al \<Longrightarrow> P (k, v) \<Longrightarrow> list_all P (AList.update k v al)"
  by (induction al) auto

lemma list_all_delete: "list_all P al \<Longrightarrow> list_all P (AList.delete k al)"
  by (induction al) (auto simp: AList.delete_eq)

lemma canonicalMap_update:
  "canonicalMap al \<Longrightarrow> fst k \<le> snd k \<Longrightarrow> canonicalMap (AList.update k v al)"
  by (simp add: canonicalMap_def AList.distinct_update list_all_update)

lemma canonicalMap_delete: "canonicalMap al \<Longrightarrow> canonicalMap (AList.delete k al)"
  by (simp add: canonicalMap_def AList.distinct_delete list_all_delete)

lemma pairKey_ordered: "fst (pairKey a b) \<le> snd (pairKey a b)"
  by (simp add: pairKey_def)

lemma pairKey_commute: "pairKey a b = pairKey b a"
  by (auto simp: pairKey_def)

lemma pairEntries_le1:
  assumes "canonicalMap al"
  shows "length (pairEntries a b al) \<le> Suc 0"
proof -
  from assms have d: "distinct (map fst al)" and o: "list_all (\<lambda>e. fst (fst e) \<le> snd (fst e)) al"
    by (simp_all add: canonicalMap_def)
  have "pairEntries a b al = filter (\<lambda>e. fst e = pairKey a b) al"
    unfolding pairEntries_def
  proof (rule filter_cong[OF refl])
    fix e assume "e \<in> set al"
    with o have "fst (fst e) \<le> snd (fst e)" by (simp add: list_all_iff)
    then show "(fst e = (a, b) \<or> fst e = (b, a)) = (fst e = pairKey a b)"
      by (cases e) (auto simp: pairKey_def)
  qed
  with filter_key_le1[OF d] show ?thesis by simp
qed

lemma pairEntries_update:
  assumes "canonicalMap al"
  shows "pairEntries a b (AList.update (pairKey a b) v al) = [(pairKey a b, v)]"
proof -
  let ?al = "AList.update (pairKey a b) v al"
  have c: "canonicalMap ?al"
    using assms by (rule canonicalMap_update) (rule pairKey_ordered)
  have "map_of ?al (pairKey a b) = Some v" by (simp add: AList.update_conv')
  then have "(pairKey a b, v) \<in> set ?al" by (rule map_of_SomeD)
  then have m: "(pairKey a b, v) \<in> set (pairEntries a b ?al)"
    by (auto simp: pairEntries_def pairKey_def)
  from pairEntries_le1[OF c, of a b] m show ?thesis
    by (cases "pairEntries a b ?al") auto
qed

lemma SetBumpMergeDistance4_map:
  "mvBumpMergePar (SetBumpMergeDistance4 a b d m s) =
     AList.update (pairKey a b) (BumpMergePar2 d m) (mvBumpMergePar s)"
  by (simp add: SetBumpMergeDistance4_def Click_def pairKey_def)

lemma SetBumpMergeDistance4_other:
  "mvBondValenceRo (SetBumpMergeDistance4 a b d m s) = mvBondValenceRo s"
  by (simp add: SetBumpMergeDistance4_def Click_def)

lemma RemoveBumpMergeDistance_map:
  "mvBumpMergePar (RemoveBumpMergeDistance a b s) = AList.delete (pairKey a b) (mvBumpMergePar s)
   \<or> mvBumpMergePar (RemoveBumpMergeDistance a b s) = mvBumpMergePar s"
  by (simp add: RemoveBumpMergeDistance_def Click_def pairKey_def Let_def split: option.splits)

lemma RemoveBumpMergeDistance_other:
  "mvBondValenceRo (RemoveBumpMergeDistance a b s) = mvBondValenceRo s"
  by (simp add: RemoveBumpMergeDistance_def Click_def Let_def split: option.splits)

lemma AddBondValenceRo_map:
  "mvBondValenceRo (AddBondValenceRo a b r s) = AList.update (pairKey a b) r (mvBondValenceRo s)"
  by (simp add: AddBondValenceRo_def Click_def pairKey_def)

lemma AddBondValenceRo_other:
  "mvBumpMergePar (AddBondValenceRo a b r s) = mvBumpMergePar s"
  by (simp add: AddBondValenceRo_def Click_def)

lemma RemoveBondValenceRo_map:
  "mvBondValenceRo (RemoveBondValenceRo a b s) = AList.delete (pairKey a b) (mvBondValenceRo s)
   \<or> mvBondValenceRo (RemoveBondValenceRo a b s) = mvBondValenceRo s"
  by (simp add: RemoveBondValenceRo_def Click_def pairKey_def Let_def split: option.splits)

lemma RemoveBondValenceRo_other:
  "mvBumpMergePar (RemoveBondValenceRo a b s) = mvBumpMergePar s"
  by (simp add: RemoveBondValenceRo_def Click_def Let_def split: option.splits)

lemma doParCall_canonical:
  assumes "mapsCanonical s"
  shows "mapsCanonical (doParCall c s)"
proof (cases c)
  case (CallSetBumpMergeDistance a b d)
  with assms show ?thesis
    by (simp add: mapsCanonical_def SetBumpMergeDistance_def SetBumpMergeDistance4_map
        SetBumpMergeDistance4_other canonicalMap_update pairKey_ordered)
next
  case (CallSetBumpMergeDistance4 a b d m)
  with assms show ?thesis
    by (simp add: mapsCanonical_def SetBumpMergeDistance4_map
        SetBumpMergeDistance4_other canonicalMap_update pairKey_ordered)
next
  case (CallRemoveBumpMergeDistance a b)
  with assms RemoveBumpMergeDistance_map[of a b s] show ?thesis
    by (auto simp: mapsCanonical_def RemoveBumpMergeDistance_other canonicalMap_delete)
next
  case (CallAddBondValenceRo a b r)
  with assms show ?thesis
    by (simp add: mapsCanonical_def AddBondValenceRo_map AddBondValenceRo_other
        canonicalMap_update pairKey_ordered)
next
  case (CallRemoveBondValenceRo a b)
  with assms RemoveBondValenceRo_map[of a b s] show ?thesis
    by (auto simp: mapsCanonical_def RemoveBondValenceRo_other canonicalMap_delete)
qed

lemma doParCalls_canonical: "mapsCanonical s \<Longrightarrow> mapsCanonical (doParCalls calls s)"
  unfolding doParCalls_def
  by (induction calls arbitrary: s) (simp_all add: doParCall_canonical)

text \<open>
  Claim C8. Starting from maps that hold each key once with the smaller address first (as
  the empty maps of a new crystal do), any sequence of calls of \<^verbatim>\<open>SetBumpMergeDistance\<close>
  (both overloads), \<^verbatim>\<open>RemoveBumpMergeDistance\<close>, \<^verbatim>\<open>AddBondValenceRo\<close> and
  \<^verbatim>\<open>RemoveBondValenceRo\<close> leaves both maps in that form, so each holds at most one
  entry for the unordered pair \<open>{a, b}\<close>. Setting the parameters of the pair afterwards,
  with the two species in either order, leaves exactly one entry for the pair: the one
  under the canonical key, holding the new value.
\<close>

theorem pairwise_maps_one_entry_per_pair:
  assumes "canonicalMap (mvBumpMergePar s)" and "canonicalMap (mvBondValenceRo s)"
  shows "canonicalMap (mvBumpMergePar (doParCalls calls s))
       \<and> canonicalMap (mvBondValenceRo (doParCalls calls s))
       \<and> length (pairEntries a b (mvBumpMergePar (doParCalls calls s))) \<le> 1
       \<and> length (pairEntries a b (mvBondValenceRo (doParCalls calls s))) \<le> 1
       \<and> pairEntries a b (mvBumpMergePar (SetBumpMergeDistance4 a b d m (doParCalls calls s)))
           = [(pairKey a b, BumpMergePar2 d m)]
       \<and> pairEntries a b (mvBumpMergePar (SetBumpMergeDistance4 b a d m (doParCalls calls s)))
           = [(pairKey a b, BumpMergePar2 d m)]
       \<and> pairEntries a b (mvBondValenceRo (AddBondValenceRo a b r (doParCalls calls s)))
           = [(pairKey a b, r)]
       \<and> pairEntries a b (mvBondValenceRo (AddBondValenceRo b a r (doParCalls calls s)))
           = [(pairKey a b, r)]"
proof -
  from assms have "mapsCanonical s" by (simp add: mapsCanonical_def)
  then have "mapsCanonical (doParCalls calls s)" by (rule doParCalls_canonical)
  then have c1: "canonicalMap (mvBumpMergePar (doParCalls calls s))"
    and c2: "canonicalMap (mvBondValenceRo (doParCalls calls s))"
    by (simp_all add: mapsCanonical_def)
  show ?thesis
    using c1 c2 pairEntries_le1[OF c1, of a b] pairEntries_le1[OF c2, of a b]
      pairEntries_update[OF c1, of a b] pairEntries_update[OF c2, of a b]
    by (simp add: SetBumpMergeDistance4_map AddBondValenceRo_map pairKey_commute[of b a])
qed

theorem pairwise_maps_one_entry_per_pair_witness:
  "canonicalMap (mvBumpMergePar newCrystal) \<and> canonicalMap (mvBondValenceRo newCrystal)
   \<and> length (pairEntries 2 1 (mvBumpMergePar
         (doParCalls [CallSetBumpMergeDistance4 1 2 3 False, CallAddBondValenceRo 2 1 2,
                      CallSetBumpMergeDistance 2 1 4] newCrystal))) \<le> 1
   \<and> pairEntries 2 1 (mvBondValenceRo (AddBondValenceRo 1 2 (3/2)
         (doParCalls [CallSetBumpMergeDistance4 1 2 3 False, CallAddBondValenceRo 2 1 2,
                      CallSetBumpMergeDistance 2 1 4] newCrystal)))
       = [((1, 2), 3/2)]"
proof -
  have h1: "canonicalMap (mvBumpMergePar newCrystal)"
    by (simp add: newCrystal_def canonicalMap_def)
  have h2: "canonicalMap (mvBondValenceRo newCrystal)"
    by (simp add: newCrystal_def canonicalMap_def)
  show ?thesis
    using h1 h2 pairwise_maps_one_entry_per_pair [OF h1 h2,
        of "[CallSetBumpMergeDistance4 1 2 3 False, CallAddBondValenceRo 2 1 2,
             CallSetBumpMergeDistance 2 1 4]" 2 1 2 True "3/2"]
    by (simp add: pairKey_def)
qed

section \<open>Proofs: the table of minimal distances\<close>

lemma minDistMirrorCell_eq:
  "minDistMirrorCell i j M = M((i, j) := reported (M (i, j)), (j, i) := reported (M (i, j)))"
  unfolding minDistMirrorCell_def Let_def reported_def
  by (cases "9999 < M (i, j)") (simp_all only: if_True if_False fun_upd_same fun_upd_upd)

lemma minDistMirrorCell_apply:
  "minDistMirrorCell i j M (a, b) =
     (if (a, b) = (i, j) \<or> (a, b) = (j, i) then reported (M (i, j)) else M (a, b))"
  unfolding minDistMirrorCell_eq by (simp only: fun_upd_apply split: if_split) blast

lemma mirror_row:
  "k \<le> Suc i \<Longrightarrow>
   fold (minDistMirrorCell i) [0..<k] M (a, b) =
     (if a = i \<and> b < k then reported (M (i, b))
      else if b = i \<and> a < k then reported (M (i, a)) else M (a, b))"
proof (induction k arbitrary: a b)
  case 0
  then show ?case by simp
next
  case (Suc k)
  let ?M' = "fold (minDistMirrorCell i) [0..<k] M"
  from Suc have IH: "\<And>a b. ?M' (a, b) =
     (if a = i \<and> b < k then reported (M (i, b))
      else if b = i \<and> a < k then reported (M (i, a)) else M (a, b))"
    by simp
  from Suc.prems have ki: "k \<le> i" by simp
  have "fold (minDistMirrorCell i) [0..<Suc k] M = minDistMirrorCell i k ?M'"
    by simp
  then have step: "fold (minDistMirrorCell i) [0..<Suc k] M (a, b)
      = (if (a, b) = (i, k) \<or> (a, b) = (k, i) then reported (?M' (i, k)) else ?M' (a, b))"
    by (simp only: minDistMirrorCell_apply)
  have ik: "?M' (i, k) = M (i, k)"
    using ki by (simp add: IH)
  consider (1) "a = i" "b = k" | (2) "a = k" "b = i" | (3) "(a, b) \<noteq> (i, k)" "(a, b) \<noteq> (k, i)"
    by auto
  then show ?case
  proof cases
    case 1
    then show ?thesis unfolding step by (simp add: ik)
  next
    case 2
    then show ?thesis unfolding step using ki by (simp add: ik)
  next
    case 3
    then have e1: "(a = i \<and> b < Suc k) = (a = i \<and> b < k)"
      and e2: "(b = i \<and> a < Suc k) = (b = i \<and> a < k)"
      by (auto simp: less_Suc_eq)
    from 3 have "fold (minDistMirrorCell i) [0..<Suc k] M (a, b) = ?M' (a, b)"
      unfolding step by auto
    also have "\<dots> = (if a = i \<and> b < k then reported (M (i, b))
      else if b = i \<and> a < k then reported (M (i, a)) else M (a, b))"
      by (rule IH)
    also have "\<dots> = (if a = i \<and> b < Suc k then reported (M (i, b))
      else if b = i \<and> a < Suc k then reported (M (i, a)) else M (a, b))"
      by (simp only: e1 e2)
    finally show ?thesis .
  qed
qed

lemma minDistMirror_apply:
  "minDistMirror n M (a, b) =
     (if a < n \<and> b < n then reported (M (max a b, min a b)) else M (a, b))"
proof (induction n arbitrary: a b)
  case 0
  then show ?case by (simp add: minDistMirror_def)
next
  case (Suc n)
  have "minDistMirror (Suc n) M = fold (minDistMirrorCell n) [0..<Suc n] (minDistMirror n M)"
    unfolding minDistMirror_def by (simp only: upt_Suc_append le0 fold_append fold_simps comp_apply)
  then have "minDistMirror (Suc n) M (a, b)
          = fold (minDistMirrorCell n) [0..<Suc n] (minDistMirror n M) (a, b)"
    by (simp only:)
  also have "\<dots> = (if a = n \<and> b < Suc n then reported (minDistMirror n M (n, b))
      else if b = n \<and> a < Suc n then reported (minDistMirror n M (n, a))
      else minDistMirror n M (a, b))"
    by (rule mirror_row) simp
  finally have eq: "minDistMirror (Suc n) M (a, b) =
      (if a = n \<and> b < Suc n then reported (minDistMirror n M (n, b))
      else if b = n \<and> a < Suc n then reported (minDistMirror n M (n, a))
      else minDistMirror n M (a, b))" .
  have row: "minDistMirror n M (n, x) = M (n, x)" for x
    by (simp add: Suc.IH)
  consider (1) "a = n" "b \<le> n" | (2) "b = n" "a < n" | (3) "a < n" "b < n"
    | (4) "\<not> (a < Suc n \<and> b < Suc n)"
    by linarith
  then show ?case
  proof cases
    case 1
    then show ?thesis unfolding eq by (simp add: row max_def min_def)
  next
    case 2
    then show ?thesis unfolding eq by (simp add: row max_def min_def)
  next
    case 3
    then show ?thesis unfolding eq by (simp add: Suc.IH)
  next
    case 4
    then have "a \<noteq> n \<or> \<not> b < Suc n" "b \<noteq> n \<or> \<not> a < Suc n" "\<not> (a < n \<and> b < n)"
      by auto
    then show ?thesis using 4 unfolding eq by (auto simp: Suc.IH)
  qed
qed

lemma minDistScan_other:
  "(a, b) \<noteq> (i, mNeighbourIndex nb) \<Longrightarrow> minDistScan mn nh i nb M (a, b) = M (a, b)"
  by (auto simp: minDistScan_def Let_def)

lemma scan_inv:
  assumes "Q (M (a, b))"
    and "\<forall>nb \<in> set nbs. i = a \<and> mNeighbourIndex nb = b \<and> minDistQualifies mn nh nb \<longrightarrow> Q (mDist2 nb)"
  shows "Q (fold (minDistScan mn nh i) nbs M (a, b))"
  using assms
proof (induction nbs arbitrary: M)
  case Nil
  then show ?case by simp
next
  case (Cons nb nbs)
  have "Q (minDistScan mn nh i nb M (a, b))"
  proof (cases "(a, b) = (i, mNeighbourIndex nb)")
    case True
    with Cons.prems show ?thesis by (simp add: minDistScan_def Let_def)
  next
    case False
    with Cons.prems(1) show ?thesis by (simp add: minDistScan_other)
  qed
  with Cons show ?case by simp
qed

lemma fill_inv:
  assumes "Q (M (a, b))"
    and "\<forall>nb \<in> set (mvNeighbour (tbl ! a)).
           mNeighbourIndex nb = b \<and> minDistQualifies mn (tbl ! a) nb \<longrightarrow> Q (mDist2 nb)"
  shows "Q (fold (\<lambda>i M. fold (minDistScan mn (tbl ! i) i) (mvNeighbour (tbl ! i)) M) is M (a, b))"
  using assms(1)
proof (induction "is" arbitrary: M)
  case Nil
  then show ?case by simp
next
  case (Cons i "is")
  have "Q (fold (minDistScan mn (tbl ! i) i) (mvNeighbour (tbl ! i)) M (a, b))"
  proof (rule scan_inv[where Q=Q])
    show "Q (M (a, b))" by (rule Cons.prems)
    show "\<forall>nb\<in>set (mvNeighbour (tbl ! i)).
       i = a \<and> mNeighbourIndex nb = b \<and> minDistQualifies mn (tbl ! i) nb \<longrightarrow> Q (mDist2 nb)"
      using assms(2) by auto
  qed
  with Cons.IH show ?case by simp
qed

lemma minDistFill_inv:
  assumes "Q 10000"
    and "\<forall>nb \<in> set (mvNeighbour (tbl ! a)).
           mNeighbourIndex nb = b \<and> minDistQualifies mn (tbl ! a) nb \<longrightarrow> Q (mDist2 nb)"
  shows "Q (minDistFill mn tbl n (a, b))"
  unfolding minDistFill_def by (rule fill_inv[where Q=Q]) (use assms in auto)

lemma no_contact_zero:
  assumes "a < n" "b < n"
    and "\<forall>nb \<in> set (mvNeighbour (tbl ! max a b)).
           mNeighbourIndex nb = min a b
           \<and> minDistQualifies (if md < 0 then - 1 else md * md) (tbl ! max a b) nb
           \<longrightarrow> 9999 < mDist2 nb"
  shows "minDistanceTable tbl n md (a, b) = 0"
proof -
  let ?mn = "if md < 0 then - 1 else md * md"
  have "9999 < minDistFill ?mn tbl n (max a b, min a b)"
    by (rule minDistFill_inv[where Q="\<lambda>v. 9999 < v"]) (use assms(3) in auto)
  moreover have "minDistanceTable tbl n md (a, b)
      = reported (minDistFill ?mn tbl n (max a b, min a b))"
    using assms(1,2) unfolding minDistanceTable_def Let_def by (simp only: minDistMirror_apply if_True simp_thms)
  ultimately show ?thesis
    by (simp add: reported_def)
qed

lemma Min_insert_min:
  fixes m :: real
  assumes "finite S"
  shows "Min (insert (min t m) S) = Min (insert m (insert t S))"
proof -
  have "Min (insert (min t m) S) = Min (insert t (insert m S))"
  proof (cases "S = {}")
    case True
    then show ?thesis by (simp add: min.commute)
  next
    case False
    with assms show ?thesis by (simp add: min.assoc)
  qed
  then show ?thesis by (simp add: insert_commute)
qed

lemma scan_min:
  "fold (minDistScan mn nh i) nbs M (a, b) =
     (if i = a
      then Min (insert (M (a, b))
             (set (map mDist2 (filter (\<lambda>nb. mNeighbourIndex nb = b \<and> minDistQualifies mn nh nb) nbs))))
      else M (a, b))"
proof (induction nbs arbitrary: M)
  case Nil
  then show ?case by simp
next
  case (Cons nb nbs)
  let ?S = "set (map mDist2 (filter (\<lambda>nb. mNeighbourIndex nb = b \<and> minDistQualifies mn nh nb) nbs))"
  let ?M1 = "minDistScan mn nh i nb M"
  have step: "fold (minDistScan mn nh i) (nb # nbs) M (a, b)
      = (if i = a then Min (insert (?M1 (a, b)) ?S) else ?M1 (a, b))"
    using Cons.IH[of ?M1] by simp
  show ?case
  proof (cases "i = a")
    case False
    then show ?thesis unfolding step by (simp add: minDistScan_other)
  next
    case ia: True
    show ?thesis
    proof (cases "mNeighbourIndex nb = b \<and> minDistQualifies mn nh nb")
      case True
      then have "?M1 (a, b) = min (mDist2 nb) (M (a, b))"
        using ia by (auto simp: minDistScan_def Let_def min_def)
      then have "Min (insert (?M1 (a, b)) ?S) = Min (insert (M (a, b)) (insert (mDist2 nb) ?S))"
        by (simp add: Min_insert_min)
      with True ia show ?thesis unfolding step by simp
    next
      case False
      then have "?M1 (a, b) = M (a, b)"
        using ia by (auto simp: minDistScan_def Let_def)
      with False ia show ?thesis unfolding step by auto
    qed
  qed
qed

lemma fill_min:
  assumes "distinct ks"
  shows "fold (\<lambda>i M. fold (minDistScan mn (tbl ! i) i) (mvNeighbour (tbl ! i)) M) ks M (a, b) =
     (if a \<in> set ks then Min (insert (M (a, b)) (set (contactsOf mn tbl a b))) else M (a, b))"
  using assms
proof (induction ks arbitrary: M)
  case Nil
  then show ?case by simp
next
  case (Cons i ks)
  let ?M1 = "fold (minDistScan mn (tbl ! i) i) (mvNeighbour (tbl ! i)) M"
  from Cons.prems have d: "distinct ks" and ni: "i \<notin> set ks" by simp_all
  have step: "fold (\<lambda>i M. fold (minDistScan mn (tbl ! i) i) (mvNeighbour (tbl ! i)) M) (i # ks) M (a, b)
      = (if a \<in> set ks then Min (insert (?M1 (a, b)) (set (contactsOf mn tbl a b))) else ?M1 (a, b))"
    using Cons.IH[OF d, of ?M1] by simp
  have m1: "?M1 (a, b) = (if i = a then Min (insert (M (a, b)) (set (contactsOf mn tbl a b))) else M (a, b))"
    unfolding scan_min contactsOf_def by simp
  show ?case
  proof (cases "i = a")
    case True
    with ni have "a \<notin> set ks" by simp
    with True show ?thesis unfolding step m1 by simp
  next
    case False
    then show ?thesis unfolding step m1 by simp
  qed
qed

lemma minDistFill_nearest:
  "minDistFill mn tbl n (a, b) = (if a < n then nearestContact mn tbl a b else 10000)"
  unfolding minDistFill_def nearestContact_def by (simp add: fill_min)

lemma minDistanceTable_value:
  assumes "i < n" "j < n"
  shows "minDistanceTable tbl n md (i, j)
       = reported (nearestContact (if md < 0 then - 1 else md * md) tbl (max i j) (min i j))"
proof -
  have "minDistanceTable tbl n md (i, j)
      = reported (minDistFill (if md < 0 then - 1 else md * md) tbl n (max i j, min i j))"
    using assms unfolding minDistanceTable_def Let_def
    by (simp only: minDistMirror_apply if_True simp_thms)
  also have "max i j < n" using assms by simp
  then have "minDistFill (if md < 0 then - 1 else md * md) tbl n (max i j, min i j)
      = nearestContact (if md < 0 then - 1 else md * md) tbl (max i j) (min i j)"
    by (simp add: minDistFill_nearest)
  finally show ?thesis .
qed

text \<open>
  Claim C3, as amended. For every table, every number of components and every
  \<^verbatim>\<open>minDistance\<close>, the matrix built by \<^verbatim>\<open>GetMinDistanceTable\<close> is symmetric on the
  indices below \<^verbatim>\<open>nbComponent\<close>, and its entry \<open>(i, j)\<close>, the diagonal included, is
  determined by the neighbour records of the component with the larger index that point
  to the one with the smaller index and pass the test of the first pass (a squared
  distance above \<open>minDistance\<^sup>2\<close>, or above \<open>-1\<close> for a negative \<^verbatim>\<open>minDistance\<close>; or a
  record of another component whose symmetry index differs from that of the unique
  position): it is the square root of the smallest of their squared distances when that
  is at most \<open>9999\<close>, and \<open>0\<close> otherwise. So the diagonal entry \<open>(i, i)\<close> is the distance from component \<open>i\<close>
  to the nearest of its own symmetric images that passes the test, and \<open>0\<close> only when
  there is none within the cutoff.
\<close>

theorem minDistanceTable_symmetric:
  assumes "i < n" and "j < n"
  shows "minDistanceTable tbl n md (i, j) = minDistanceTable tbl n md (j, i)
       \<and> minDistanceTable tbl n md (i, j)
           = reported (nearestContact (if md < 0 then - 1 else md * md) tbl (max i j) (min i j))
       \<and> minDistanceTable tbl n md (i, i)
           = reported (nearestContact (if md < 0 then - 1 else md * md) tbl i i)"
proof (intro conjI)
  show "minDistanceTable tbl n md (i, j) = minDistanceTable tbl n md (j, i)"
    using assms unfolding minDistanceTable_def Let_def
    by (simp only: minDistMirror_apply if_True simp_thms max.commute[of i j] min.commute[of i j])
  show "minDistanceTable tbl n md (i, j)
           = reported (nearestContact (if md < 0 then - 1 else md * md) tbl (max i j) (min i j))"
    using assms by (rule minDistanceTable_value)
  show "minDistanceTable tbl n md (i, i)
           = reported (nearestContact (if md < 0 then - 1 else md * md) tbl i i)"
    using minDistanceTable_value[OF assms(1) assms(1), of tbl md] by simp
qed

theorem minDistanceTable_symmetric_witness:
  "(0::nat) < 2 \<and> (1::nat) < 2
   \<and> minDistanceTable nearTable 2 (- 1) (0, 1) = minDistanceTable nearTable 2 (- 1) (1, 0)
   \<and> minDistanceTable nearTable 2 (- 1) (0, 1) = sqrt (327500825 / 33554432)
   \<and> minDistanceTable nearTable 2 (- 1) (0, 0) = sqrt (104755225 / 67108864)"
  using minDistanceTable_symmetric [of 0 2 1 nearTable "- 1"]
  by (simp add: nearTable_value reported_def nearestContact_def contactsOf_def minDistQualifies_def)

text \<open>
  Claim C3 as stated fails: one atom at \<open>(1/16, 0, 0)\<close> in a cell of edge \<open>10\<close> with an
  inversion centre has its own image at \<open>(15/16, 0, 0)\<close> as a neighbour, and with
  \<^verbatim>\<open>minDistance = -1\<close> (the call made by \<^verbatim>\<open>CIFOutput\<close>) the diagonal entry \<open>(0, 0)\<close>
  is the distance to that image, not \<open>0\<close>.
\<close>

theorem minDistanceTable_diagonal_counterexample:
  "fst (the (GetMinDistanceTable (Suc (Suc 0)) (cellInv 10 (1/2)) (powersWith (\<lambda>p. 0)) 4 (- 1)
               (crystalOf [atomAt (1/16) 0 0 1]))) (0, 0) \<noteq> 0"
  by (simp add: minDist_eval lazy_eval crystal_eval distTable_eval)

text \<open>
  Claim C4, as amended. An entry \<open>(i, j)\<close> for which the first pass saw no contact with a
  squared distance of at most \<open>9999\<close> (among the records of the larger index that point to
  the smaller one and pass its test) reports \<open>0\<close>: the second pass replaces the value
  \<open>10000\<close> left in the cell by \<open>0\<close> before taking the square root.
\<close>

theorem no_contact_reports_zero:
  assumes "i < n" and "j < n"
    and "\<forall>nb \<in> set (mvNeighbour (tbl ! max i j)).
           mNeighbourIndex nb = min i j
           \<and> minDistQualifies (if md < 0 then - 1 else md * md) (tbl ! max i j) nb
           \<longrightarrow> 9999 < mDist2 nb"
  shows "minDistanceTable tbl n md (i, j) = 0"
  using assms by (rule no_contact_zero)

theorem no_contact_reports_zero_witness:
  "(1::nat) < 2 \<and> (0::nat) < 2
   \<and> list_all (\<lambda>nb. mNeighbourIndex nb = min 1 0 \<and> minDistQualifies (1 * 1) (farTable ! max 1 0) nb
                         \<longrightarrow> 9999 < mDist2 nb) (mvNeighbour (farTable ! max 1 0))
   \<and> minDistanceTable farTable 2 1 (1, 0) = 0"
proof -
  have h: "\<forall>nb \<in> set (mvNeighbour (farTable ! max 1 0)).
             mNeighbourIndex nb = min 1 0
             \<and> minDistQualifies (if (1::real) < 0 then - 1 else 1 * 1) (farTable ! max 1 0) nb
             \<longrightarrow> 9999 < mDist2 nb"
    by (simp add: farTable_value)
  show ?thesis
    using no_contact_reports_zero [of 1 2 0 farTable 1] h
    by (simp add: list_all_iff)
qed

text \<open>
  Claim C4 as stated fails: two atoms at \<open>(0, 0, 0)\<close> and \<open>(1/2, 1/2, 1/2)\<close> in a P1 cell
  of edge \<open>400\<close> are further apart than the cutoff, and the entry \<open>(1, 0)\<close> reports \<open>0\<close>,
  not the square root of the value \<open>10000\<close> that the cells are initialised with.
\<close>

theorem no_contact_sentinel_counterexample:
  "fst (the (GetMinDistanceTable (Suc (Suc 0)) (cellP1 400) (powersWith (\<lambda>p. 0)) 4 1
               (crystalOf [atomAt 0 0 0 1, atomAt (1/2) (1/2) (1/2) 1]))) (1, 0) = 0
   \<and> fst (the (GetMinDistanceTable (Suc (Suc 0)) (cellP1 400) (powersWith (\<lambda>p. 0)) 4 1
               (crystalOf [atomAt 0 0 0 1, atomAt (1/2) (1/2) (1/2) 1]))) (1, 0) \<noteq> sqrt 10000"
  by (simp add: minDist_eval lazy_eval crystal_eval distTable_eval)

section \<open>Proofs: the dynamical occupancy correction\<close>









section \<open>Proofs: the bond valence sums\<close>

lemma lookup_pairKey:
  "(if p1 < p2 then map_of m (p1, p2) else map_of m (p2, p1)) = map_of m (pairKey p1 p2)"
  by (simp add: pairKey_def)

lemma bondValenceStep_eq:
  "bondValenceStep ros comps (mpScattPow (comps ! i)) nb (val, n) =
     (case bondRo ros comps i nb of
        None \<Rightarrow> (val, n)
      | Some ro \<Rightarrow>
          (val + mOccupancy (comps ! mNeighbourIndex nb) * mDynPopCorr (comps ! mNeighbourIndex nb)
                 * exp ((ro - sqrt (mDist2 nb)) / 0.37), n + 1))"
  unfolding bondValenceStep_def Let_def lookup_pairKey bondRo_def by simp

lemma bondValenceStep_fold:
  "fold (bondValenceStep ros comps (mpScattPow (comps ! i))) nbs (val, n) =
     (val + (\<Sum>nb \<leftarrow> filter (\<lambda>nb. bondRo ros comps i nb \<noteq> None) nbs.
               mOccupancy (comps ! mNeighbourIndex nb) * mDynPopCorr (comps ! mNeighbourIndex nb)
               * exp ((the (bondRo ros comps i nb) - sqrt (mDist2 nb)) / 0.37)),
      n + length (filter (\<lambda>nb. bondRo ros comps i nb \<noteq> None) nbs))"
proof (induction nbs arbitrary: val n)
  case Nil
  then show ?case by simp
next
  case (Cons nb nbs)
  show ?case
  proof (cases "bondRo ros comps i nb")
    case None
    then have "bondValenceStep ros comps (mpScattPow (comps ! i)) nb (val, n) = (val, n)"
      by (simp add: bondValenceStep_eq)
    with None show ?thesis by (simp add: Cons.IH)
  next
    case (Some ro)
    then have "bondValenceStep ros comps (mpScattPow (comps ! i)) nb (val, n)
        = (val + mOccupancy (comps ! mNeighbourIndex nb) * mDynPopCorr (comps ! mNeighbourIndex nb)
               * exp ((ro - sqrt (mDist2 nb)) / 0.37), n + 1)"
      by (simp add: bondValenceStep_eq)
    with Some show ?thesis by (simp add: Cons.IH add.assoc)
  qed
qed

lemma bondValenceOf_eq:
  "bondValenceOf ros comps tbl i =
     (valenceSumCorrected ros comps tbl i, length (bondNeighbours ros comps tbl i))"
  by (simp add: bondValenceOf_def bondValenceStep_fold valenceSumCorrected_def bondNeighbours_def)

lemma calcBondValenceSum_fold:
  "map_of (fold (\<lambda>i calc. case bondValenceOf ros comps tbl i of
                       (val, nb) \<Rightarrow> if nb \<noteq> 0 then AList.update i val calc else calc)
             [0..<n] []) i =
     (if i < n \<and> bondNeighbours ros comps tbl i \<noteq> []
      then Some (valenceSumCorrected ros comps tbl i) else None)"
proof (induction n)
  case 0
  then show ?case by simp
next
  case (Suc n)
  then show ?case
    by (auto simp: bondValenceOf_eq AList.update_conv' less_Suc_eq)
qed

lemma calcBondValenceSum_map:
  "map_of (calcBondValenceSum ros comps tbl) i =
     (if i < length comps \<and> bondNeighbours ros comps tbl i \<noteq> []
      then Some (valenceSumCorrected ros comps tbl i) else None)"
  unfolding calcBondValenceSum_def by (rule calcBondValenceSum_fold)

section \<open>Proofs: the bump-merge cost\<close>

lemma bumpMergeStep_eq:
  "bumpMergeStep pars comps (mpScattPow (comps ! i)) nb cost = cost + stepTerm pars comps (i, nb)"
  unfolding bumpMergeStep_def Let_def lookup_pairKey stepTerm_def pairPar_def
  by (simp split: option.splits)

lemma bumpMergeStep_fold:
  "fold (bumpMergeStep pars comps (mpScattPow (comps ! i))) nbs cost =
     cost + (\<Sum>nb \<leftarrow> nbs. stepTerm pars comps (i, nb))"
  by (induction nbs arbitrary: cost) (simp_all add: bumpMergeStep_eq add.assoc)

lemma bumpMergeSum_fold:
  "fold (\<lambda>pos cost. fold (bumpMergeStep pars comps (mpScattPow (comps ! mIndex pos)))
                         (mvNeighbour pos) cost) tbl cost0 =
     cost0 + (\<Sum>e \<leftarrow> neighbourPairs tbl. stepTerm pars comps e)"
proof (induction tbl arbitrary: cost0)
  case Nil
  then show ?case by (simp add: neighbourPairs_def)
next
  case (Cons pos tbl)
  let ?F = "\<lambda>pos cost. fold (bumpMergeStep pars comps (mpScattPow (comps ! mIndex pos)))
                         (mvNeighbour pos) cost"
  have np: "neighbourPairs (pos # tbl)
      = map (\<lambda>nb. (mIndex pos, nb)) (mvNeighbour pos) @ neighbourPairs tbl"
    by (simp add: neighbourPairs_def)
  have "fold ?F (pos # tbl) cost0 = fold ?F tbl (?F pos cost0)"
    by simp
  also have "\<dots> = ?F pos cost0 + (\<Sum>e \<leftarrow> neighbourPairs tbl. stepTerm pars comps e)"
    by (rule Cons.IH)
  also have "?F pos cost0 = cost0 + (\<Sum>nb \<leftarrow> mvNeighbour pos. stepTerm pars comps (mIndex pos, nb))"
    by (rule bumpMergeStep_fold)
  finally show ?case
    by (simp add: np comp_def add.assoc)
qed

lemma bumpMergeSum_eq:
  "bumpMergeSum pars comps tbl = (\<Sum>e \<leftarrow> neighbourPairs tbl. stepTerm pars comps e)"
  unfolding bumpMergeSum_def by (simp add: bumpMergeSum_fold)

lemma bumpMergeTerm_penalty:
  "bumpMergeTerm par d2 = bumpMergePenalty (mCanOverlap par) (sqrt d2) (sqrt (bmDist2 par))"
  by (simp add: bumpMergeTerm_def bumpMergePenalty_def Let_def real_sqrt_divide power2_eq_square)

lemma bumpMergeTerm_threshold:
  assumes "0 < bmDist2 par"
  shows "bumpMergeTerm par (bmDist2 par) = 0"
  using assms by (simp add: bumpMergeTerm_def Let_def)

lemma stepTerm_spec:
  assumes "\<forall>e \<in> set pars. 0 < bmDist2 (snd e)"
  shows "stepTerm pars comps e =
     (if bumpMergeQualifies pars comps e
      then bumpMergePenalty (mCanOverlap (the (pairPar pars comps e)))
             (sqrt (mDist2 (snd e))) (sqrt (bmDist2 (the (pairPar pars comps e))))
      else 0)"
proof (cases "pairPar pars comps e")
  case None
  then show ?thesis by (simp add: stepTerm_def bumpMergeQualifies_def)
next
  case (Some par)
  then have "(pairKey (mpScattPow (comps ! fst e)) (mpScattPow (comps ! mNeighbourIndex (snd e))), par)
      \<in> set pars"
    unfolding pairPar_def by (rule map_of_SomeD)
  with assms have pos: "0 < bmDist2 par" by fastforce
  consider "mDist2 (snd e) > bmDist2 par" | "mDist2 (snd e) = bmDist2 par" | "mDist2 (snd e) < bmDist2 par"
    by linarith
  then show ?thesis
  proof cases
    case 1
    with Some show ?thesis by (simp add: stepTerm_def bumpMergeQualifies_def)
  next
    case 2
    with Some pos show ?thesis
      by (simp add: stepTerm_def bumpMergeQualifies_def bumpMergeTerm_threshold)
  next
    case 3
    with Some show ?thesis
      by (simp add: stepTerm_def bumpMergeQualifies_def bumpMergeTerm_penalty)
  qed
qed

lemma sum_list_filter_if:
  "(\<Sum>x \<leftarrow> filter Q xs. f x) = (\<Sum>x \<leftarrow> xs. if Q x then f x else (0::real))"
  by (induction xs) simp_all

lemma bumpMergeSum_spec:
  assumes "\<forall>e \<in> set pars. 0 < bmDist2 (snd e)"
  shows "bumpMergeSum pars comps tbl =
     (\<Sum>e \<leftarrow> filter (bumpMergeQualifies pars comps) (neighbourPairs tbl).
        bumpMergePenalty (mCanOverlap (the (pairPar pars comps e)))
          (sqrt (mDist2 (snd e))) (sqrt (bmDist2 (the (pairPar pars comps e)))))"
  unfolding bumpMergeSum_eq sum_list_filter_if
  by (rule arg_cong[where f=sum_list]) (simp add: stepTerm_spec[OF assms])

section \<open>Proofs: the lazily updated caches\<close>

lemma lazyFrame_fields:
  assumes "lazyFrame s' = lazyFrame s"
  shows "mvBumpMergePar s' = mvBumpMergePar s" "mBumpMergeScale s' = mBumpMergeScale s"
    "mBumpMergeParClock s' = mBumpMergeParClock s" "mBumpMergeCostClock s' = mBumpMergeCostClock s"
    "mBumpMergeCost s' = mBumpMergeCost s"
    "mvBondValenceRo s' = mvBondValenceRo s" "mBondValenceCostScale s' = mBondValenceCostScale s"
    "mBondValenceParClock s' = mBondValenceParClock s" "mBondValenceCalcClock s' = mBondValenceCalcClock s"
    "mvBondValenceCalc s' = mvBondValenceCalc s" "mBondValenceCostClock s' = mBondValenceCostClock s"
    "mBondValenceCost s' = mBondValenceCost s"
    "mMasterClockScatteringPower s' = mMasterClockScatteringPower s"
    "mClockMaster s' = mClockMaster s" "mScattererRegistry s' = mScattererRegistry s"
    "mUseDynPopCorr s' = mUseDynPopCorr s" "mClockMetricMatrix s' = mClockMetricMatrix s"
proof -
  have *: "f (lazyFrame s') = f (lazyFrame s)" for f :: "Crystal \<Rightarrow> 'x"
    by (simp only: assms)
  show "mvBumpMergePar s' = mvBumpMergePar s" using *[of mvBumpMergePar] by (simp add: lazyFrame_def)
  show "mBumpMergeScale s' = mBumpMergeScale s" using *[of mBumpMergeScale] by (simp add: lazyFrame_def)
  show "mBumpMergeParClock s' = mBumpMergeParClock s" using *[of mBumpMergeParClock] by (simp add: lazyFrame_def)
  show "mBumpMergeCostClock s' = mBumpMergeCostClock s" using *[of mBumpMergeCostClock] by (simp add: lazyFrame_def)
  show "mBumpMergeCost s' = mBumpMergeCost s" using *[of mBumpMergeCost] by (simp add: lazyFrame_def)
  show "mvBondValenceRo s' = mvBondValenceRo s" using *[of mvBondValenceRo] by (simp add: lazyFrame_def)
  show "mBondValenceCostScale s' = mBondValenceCostScale s" using *[of mBondValenceCostScale] by (simp add: lazyFrame_def)
  show "mBondValenceParClock s' = mBondValenceParClock s" using *[of mBondValenceParClock] by (simp add: lazyFrame_def)
  show "mBondValenceCalcClock s' = mBondValenceCalcClock s" using *[of mBondValenceCalcClock] by (simp add: lazyFrame_def)
  show "mvBondValenceCalc s' = mvBondValenceCalc s" using *[of mvBondValenceCalc] by (simp add: lazyFrame_def)
  show "mBondValenceCostClock s' = mBondValenceCostClock s" using *[of mBondValenceCostClock] by (simp add: lazyFrame_def)
  show "mBondValenceCost s' = mBondValenceCost s" using *[of mBondValenceCost] by (simp add: lazyFrame_def)
  show "mMasterClockScatteringPower s' = mMasterClockScatteringPower s" using *[of mMasterClockScatteringPower] by (simp add: lazyFrame_def)
  show "mClockMaster s' = mClockMaster s" using *[of mClockMaster] by (simp add: lazyFrame_def)
  show "mScattererRegistry s' = mScattererRegistry s" using *[of mScattererRegistry] by (simp add: lazyFrame_def)
  show "mUseDynPopCorr s' = mUseDynPopCorr s" using *[of mUseDynPopCorr] by (simp add: lazyFrame_def)
  show "mClockMetricMatrix s' = mClockMetricMatrix s" using *[of mClockMetricMatrix] by (simp add: lazyFrame_def)
qed

lemma clocksBehind_click_table:
  assumes "clocksBehind s1"
  shows "clocksBehind (Click (\<lambda>t x. x\<lparr>mDistTableClock := t\<rparr>) (s1\<lparr>mvDistTableSq := T\<rparr>))"
  using assms by (auto simp: clocksBehind_def Click_def list_all_iff)

lemma DT_from_SCL:
  assumes "\<And>s s'. GetScatteringComponentList k c P s = Some s' \<Longrightarrow> listDone s s'"
    and "CalcDistTable k c P fast m s = Some s'"
  shows "tableDone s s'"
proof -
  from assms(2) obtain s1 where s1: "GetScatteringComponentList k c P s = Some s1"
    by (auto simp: CalcDistTable.simps split: option.splits)
  then have d1: "listDone s s1" by (rule assms(1))
  show ?thesis
  proof (cases "tableFresh s1")
    case True
    with assms(2) s1 have "s' = s1" by (simp add: CalcDistTable.simps tableFresh_def)
    with d1 True show ?thesis by (simp add: listDone_def tableDone_def)
  next
    case False
    with assms(2) s1 have s': "s' = Click (\<lambda>t x. x\<lparr>mDistTableClock := t\<rparr>)
        (s1\<lparr>mvDistTableSq := buildDistTable c fast m (mScattCompList s1) (mvDistTableSq s1)\<rparr>)"
      by (auto simp: CalcDistTable.simps tableFresh_def)
    have f: "lazyFrame s' = lazyFrame s1" "msTick s1 \<le> msTick s'"
      unfolding s' by (simp_all add: lazyFrame_def Click_def)
    have c: "clocksBehind s' \<and> listFresh s' \<and> tableFresh s'" if "clocksBehind s1" "listFresh s1"
      using that unfolding s'
      by (auto simp: clocksBehind_def listFresh_def tableFresh_def Click_def list_all_iff list_ex_iff)
    from d1 f c show ?thesis by (auto simp: listDone_def tableDone_def)
  qed
qed

lemma DP_from_DT:
  assumes "\<And>fast m s s'. CalcDistTable k c P fast m s = Some s' \<Longrightarrow> tableDone s s'"
    and "CalcDynPopCorr k c P ov mg s = Some s'"
  shows "tableDone s s'"
proof -
  from assms(2) obtain s1 where s1: "CalcDistTable k c P True ov s = Some s1"
    by (auto simp: CalcDynPopCorr.simps split: option.splits)
  then have d1: "tableDone s s1" by (rule assms(1))
  show ?thesis
  proof (cases "mClockDynPopCorr s1 > mDistTableClock s1")
    case True
    with assms(2) s1 have "s' = s1" by (simp add: CalcDynPopCorr.simps)
    with d1 show ?thesis by simp
  next
    case False
    with assms(2) s1 have s': "s' = Click (\<lambda>t x. x\<lparr>mClockDynPopCorr := t\<rparr>)
        (s1\<lparr>mScattCompList := calcDynPopCorr P (mvDistTableSq s1) ov mg (mScattCompList s1)\<rparr>)"
      by (auto simp: CalcDynPopCorr.simps)
    have f: "lazyFrame s' = lazyFrame s1" "msTick s1 \<le> msTick s'"
      unfolding s' by (simp_all add: lazyFrame_def Click_def)
    have c: "clocksBehind s' \<and> listFresh s' \<and> tableFresh s'"
      if "clocksBehind s1" "listFresh s1" "tableFresh s1"
      using that unfolding s'
      by (auto simp: clocksBehind_def listFresh_def tableFresh_def Click_def list_all_iff list_ex_iff)
    from d1 f c show ?thesis by (auto simp: tableDone_def)
  qed
qed

lemma SCL_step:
  assumes "\<And>ov mg s s'. CalcDynPopCorr k c P ov mg s = Some s' \<Longrightarrow> tableDone s s'"
    and "GetScatteringComponentList (Suc k) c P s = Some s'"
  shows "listDone s s'"
proof -
  let ?s1 = "Click (\<lambda>t x. x\<lparr>mClockScattCompList := t\<rparr>)
               (s\<lparr>mScattCompList := concat (map scattCompList (mScattererRegistry s))\<rparr>)"
  have f1: "lazyFrame ?s1 = lazyFrame s" "msTick s \<le> msTick ?s1"
    by (simp_all add: lazyFrame_def Click_def)
  have c1: "clocksBehind ?s1 \<and> listFresh ?s1" if "clocksBehind s"
    using that by (auto simp: clocksBehind_def listFresh_def Click_def list_all_iff list_ex_iff)
  consider (fresh) "mClockScattCompList s > mClockMaster s"
    | (same) "\<not> mClockScattCompList s > mClockMaster s"
        "\<not> list_ex (\<lambda>sc. mClockScattCompList s < mClockScatterer sc) (mScattererRegistry s)"
    | (corr) "\<not> mClockScattCompList s > mClockMaster s"
        "list_ex (\<lambda>sc. mClockScattCompList s < mClockScatterer sc) (mScattererRegistry s)"
        "mUseDynPopCorr s = 1"
    | (reset) "\<not> mClockScattCompList s > mClockMaster s"
        "list_ex (\<lambda>sc. mClockScattCompList s < mClockScatterer sc) (mScattererRegistry s)"
        "mUseDynPopCorr s \<noteq> 1"
    by blast
  then show ?thesis
  proof cases
    case fresh
    with assms(2) have "s' = s" by (simp add: SCL_simps)
    with fresh show ?thesis by (simp add: listDone_def listFresh_def)
  next
    case same
    with assms(2) have "s' = s" by (simp add: SCL_simps)
    with same show ?thesis by (simp add: listDone_def listFresh_def)
  next
    case corr
    have u: "mUseDynPopCorr ?s1 = 1" using corr(3) by (simp add: Click_def)
    from assms(2) corr(1,2) u have "CalcDynPopCorr k c P 1 0.5 ?s1 = Some s'"
      by (simp add: SCL_simps Let_def)
    then have "tableDone ?s1 s'" by (rule assms(1))
    with f1 c1 show ?thesis by (auto simp: listDone_def tableDone_def)
  next
    case reset
    have u: "mUseDynPopCorr ?s1 \<noteq> 1" using reset(3) by (simp add: Click_def)
    from assms(2) reset(1,2) u have s': "s' = ResetDynPopCorr ?s1"
      by (simp add: SCL_simps Let_def)
    have f: "lazyFrame s' = lazyFrame ?s1" "msTick ?s1 \<le> msTick s'"
      unfolding s' by (simp_all add: lazyFrame_def ResetDynPopCorr_def)
    have c: "clocksBehind s' \<and> listFresh s'" if "clocksBehind ?s1" "listFresh ?s1"
      using that unfolding s'
      by (auto simp: clocksBehind_def listFresh_def ResetDynPopCorr_def list_all_iff list_ex_iff)
    from f1 c1 f c show ?thesis by (auto simp: listDone_def)
  qed
qed

lemma SCL_done: "GetScatteringComponentList k c P s = Some s' \<Longrightarrow> listDone s s'"
proof (induction k arbitrary: s s')
  case 0
  then show ?case by (simp add: SCL_simps)
next
  case (Suc k)
  have DT: "tableDone s s'" if "CalcDistTable k c P fast m s = Some s'" for fast m s s'
    using Suc.IH that by (rule DT_from_SCL)
  have DP: "tableDone s s'" if "CalcDynPopCorr k c P ov mg s = Some s'" for ov mg s s'
    using DT that by (rule DP_from_DT)
  from DP Suc.prems show ?case by (rule SCL_step)
qed

lemma DT_done: "CalcDistTable k c P fast m s = Some s' \<Longrightarrow> tableDone s s'"
  using SCL_done by (rule DT_from_SCL)

lemma DT_fuel: "CalcDistTable k c P fast m s = Some s' \<Longrightarrow> \<exists>k'. k = Suc k'"
  by (cases k) (simp_all add: CalcDistTable.simps SCL_simps)

lemma SCL_stable: "listFresh s \<Longrightarrow> GetScatteringComponentList (Suc k) c P s = Some s"
  by (auto simp: listFresh_def SCL_simps)

lemma DT_stable:
  "listFresh s \<Longrightarrow> tableFresh s \<Longrightarrow> CalcDistTable (Suc k) c P fast m s = Some s"
  by (simp add: CalcDistTable.simps SCL_stable tableFresh_def)

lemma DT_total_fresh: "listFresh s \<Longrightarrow> \<exists>s'. CalcDistTable (Suc k) c P fast m s = Some s'"
  by (simp add: CalcDistTable.simps SCL_stable)

lemma DP_total_fresh: "listFresh s \<Longrightarrow> \<exists>s'. CalcDynPopCorr (Suc k) c P ov mg s = Some s'"
proof -
  assume "listFresh s"
  then obtain s1 where "CalcDistTable (Suc k) c P True ov s = Some s1"
    using DT_total_fresh by blast
  then show ?thesis by (simp add: CalcDynPopCorr.simps)
qed

lemma SCL_total:
  assumes "clocksBehind s"
  shows "\<exists>s'. GetScatteringComponentList (Suc (Suc k)) c P s = Some s'"
proof -
  let ?s1 = "Click (\<lambda>t x. x\<lparr>mClockScattCompList := t\<rparr>)
               (s\<lparr>mScattCompList := concat (map scattCompList (mScattererRegistry s))\<rparr>)"
  have "listFresh ?s1"
    using assms by (auto simp: clocksBehind_def listFresh_def Click_def list_all_iff list_ex_iff)
  then obtain s2 where "CalcDynPopCorr (Suc k) c P 1 0.5 ?s1 = Some s2"
    using DP_total_fresh by blast
  then show ?thesis by (auto simp: SCL_simps Let_def Click_def)
qed

lemma DT_total:
  assumes "clocksBehind s"
  shows "\<exists>s'. CalcDistTable (Suc (Suc k)) c P fast m s = Some s'"
proof -
  from SCL_total[OF assms] obtain s1
    where "GetScatteringComponentList (Suc (Suc k)) c P s = Some s1" by blast
  then show ?thesis by (simp add: CalcDistTable.simps)
qed

section \<open>Proofs: the cost getters\<close>

lemma BM_cases:
  assumes "GetBumpMergeCost k c P s = Some (r, s')"
  obtains (off) "mvBumpMergePar s = [] \<or> mBumpMergeScale s < 1 / 100000" "s' = s" "r = 0"
  | (cached) s1 where "mvBumpMergePar s \<noteq> []" "\<not> mBumpMergeScale s < 1 / 100000"
      "CalcDistTable k c P True 3 s = Some s1" "bumpCostFresh s1" "s' = s1"
      "r = mBumpMergeCost s1 * mBumpMergeScale s1"
  | (computed) s1 where "mvBumpMergePar s \<noteq> []" "\<not> mBumpMergeScale s < 1 / 100000"
      "CalcDistTable k c P True 3 s = Some s1" "\<not> bumpCostFresh s1"
      "s' = Click (\<lambda>t x. x\<lparr>mBumpMergeCostClock := t\<rparr>)
              (s1\<lparr>mBumpMergeCost :=
                    bumpMergeSum (mvBumpMergePar s1) (mScattCompList s1) (mvDistTableSq s1)
                    * of_nat (nbSymmetrics c)\<rparr>)"
      "r = bumpMergeSum (mvBumpMergePar s1) (mScattCompList s1) (mvDistTableSq s1)
           * of_nat (nbSymmetrics c) * mBumpMergeScale s1"
proof (cases "mvBumpMergePar s = [] \<or> mBumpMergeScale s < 1 / 100000")
  case True
  with assms have "s' = s" "r = 0" by (auto simp: GetBumpMergeCost_def split: if_splits)
  with True show ?thesis by (rule off)
next
  case False
  with assms obtain s1 where s1: "CalcDistTable k c P True 3 s = Some s1"
    by (auto simp: GetBumpMergeCost_def split: option.splits)
  show ?thesis
  proof (cases "bumpCostFresh s1")
    case True
    with assms False s1 have "s' = s1" "r = mBumpMergeCost s1 * mBumpMergeScale s1"
      by (auto simp: GetBumpMergeCost_def bumpCostFresh_def split: if_splits)
    with False s1 True show ?thesis by (intro cached) auto
  next
    case nf: False
    with assms False s1 have
      "s' = Click (\<lambda>t x. x\<lparr>mBumpMergeCostClock := t\<rparr>)
              (s1\<lparr>mBumpMergeCost :=
                    bumpMergeSum (mvBumpMergePar s1) (mScattCompList s1) (mvDistTableSq s1)
                    * of_nat (nbSymmetrics c)\<rparr>)"
      "r = bumpMergeSum (mvBumpMergePar s1) (mScattCompList s1) (mvDistTableSq s1)
           * of_nat (nbSymmetrics c) * mBumpMergeScale s1"
      by (auto simp: GetBumpMergeCost_def bumpCostFresh_def Let_def Click_def split: if_splits)
    with False s1 nf show ?thesis by (intro computed) auto
  qed
qed

lemma BM_twice:
  assumes cb: "clocksBehind s" and r: "GetBumpMergeCost k c P s = Some (r, s')"
  shows "GetBumpMergeCost k c P s' = Some (r, s')"
  using r
proof (cases rule: BM_cases)
  case off
  with r show ?thesis by simp
next
  case (cached s1)
  from cached(3) have d: "tableDone s s1" by (rule DT_done)
  with cb have fr: "listFresh s1" "tableFresh s1" and fm: "lazyFrame s1 = lazyFrame s"
    by (simp_all add: tableDone_def)
  from cached(3) obtain k' where k: "k = Suc k'" using DT_fuel by blast
  have "CalcDistTable k c P True 3 s1 = Some s1"
    unfolding k using fr by (rule DT_stable)
  with cached lazyFrame_fields(1,2)[OF fm] show ?thesis
    by (auto simp: GetBumpMergeCost_def bumpCostFresh_def split: if_splits)
next
  case (computed s1)
  from computed(3) have d: "tableDone s s1" by (rule DT_done)
  with cb have cb1: "clocksBehind s1" and fr: "listFresh s1" "tableFresh s1"
    and fm: "lazyFrame s1 = lazyFrame s"
    by (simp_all add: tableDone_def)
  from computed(3) obtain k' where k: "k = Suc k'" using DT_fuel by blast
  have fr': "listFresh s'" "tableFresh s'" "bumpCostFresh s'"
    using fr cb1 unfolding computed(5)
    by (auto simp: listFresh_def tableFresh_def bumpCostFresh_def clocksBehind_def Click_def)
  have "CalcDistTable k c P True 3 s' = Some s'"
    unfolding k using fr'(1,2) by (rule DT_stable)
  moreover have "mvBumpMergePar s' = mvBumpMergePar s" "mBumpMergeScale s' = mBumpMergeScale s"
    "mBumpMergeScale s1 = mBumpMergeScale s"
    "mBumpMergeCost s' = bumpMergeSum (mvBumpMergePar s1) (mScattCompList s1) (mvDistTableSq s1)
                    * of_nat (nbSymmetrics c)"
    using lazyFrame_fields(1,2)[OF fm] unfolding computed(5) by (simp_all add: Click_def)
  ultimately show ?thesis
    using computed(1,2,6) fr'(3)
    by (auto simp: GetBumpMergeCost_def bumpCostFresh_def split: if_splits)
qed

lemma BM_total:
  assumes "clocksBehind s"
  shows "\<exists>r s'. GetBumpMergeCost (Suc (Suc k)) c P s = Some (r, s')"
proof -
  from DT_total[OF assms] obtain s1 where "CalcDistTable (Suc (Suc k)) c P True 3 s = Some s1"
    by blast
  then show ?thesis by (auto simp: GetBumpMergeCost_def Let_def)
qed

lemma BVS_cases:
  assumes "CalcBondValenceSum k c P s = Some s'" and "mvBondValenceRo s \<noteq> []"
  obtains (cached) "CalcDistTable k c P True 5 s = Some s'" "valenceFresh s'"
  | (computed) s1 where "CalcDistTable k c P True 5 s = Some s1" "\<not> valenceFresh s1"
      "s' = Click (\<lambda>t x. x\<lparr>mBondValenceCalcClock := t\<rparr>)
              (s1\<lparr>mvBondValenceCalc :=
                    calcBondValenceSum (mvBondValenceRo s1) (mScattCompList s1) (mvDistTableSq s1)\<rparr>)"
proof -
  from assms obtain s1 where s1: "CalcDistTable k c P True 5 s = Some s1"
    by (auto simp: CalcBondValenceSum_def split: option.splits)
  show ?thesis
  proof (cases "valenceFresh s1")
    case True
    with assms s1 have "s' = s1"
      by (auto simp: CalcBondValenceSum_def valenceFresh_def split: if_splits)
    with s1 True show ?thesis by (intro cached) auto
  next
    case False
    with assms s1 have "s' = Click (\<lambda>t x. x\<lparr>mBondValenceCalcClock := t\<rparr>)
              (s1\<lparr>mvBondValenceCalc :=
                    calcBondValenceSum (mvBondValenceRo s1) (mScattCompList s1) (mvDistTableSq s1)\<rparr>)"
      by (auto simp: CalcBondValenceSum_def valenceFresh_def split: if_splits)
    with s1 False show ?thesis by (intro computed) auto
  qed
qed

lemma BVS_done:
  assumes cb: "clocksBehind s" and ne: "mvBondValenceRo s \<noteq> []"
    and r: "CalcBondValenceSum k c P s = Some s'"
  shows "clocksBehind s' \<and> listFresh s' \<and> tableFresh s' \<and> valenceFresh s'
       \<and> mvBondValenceRo s' = mvBondValenceRo s
       \<and> mBondValenceCostScale s' = mBondValenceCostScale s \<and> (\<exists>k'. k = Suc k')"
  using r ne
proof (cases rule: BVS_cases)
  case cached
  from cached(1) have "tableDone s s'" by (rule DT_done)
  with cb have "clocksBehind s'" "listFresh s'" "tableFresh s'" and fm: "lazyFrame s' = lazyFrame s"
    by (simp_all add: tableDone_def)
  with cached(2) lazyFrame_fields(6,7)[OF fm] DT_fuel[OF cached(1)] show ?thesis by simp
next
  case (computed s1)
  from computed(1) have "tableDone s s1" by (rule DT_done)
  with cb have cb1: "clocksBehind s1" and fr: "listFresh s1" "tableFresh s1"
    and fm: "lazyFrame s1 = lazyFrame s"
    by (simp_all add: tableDone_def)
  have "clocksBehind s' \<and> listFresh s' \<and> tableFresh s' \<and> valenceFresh s'"
    using cb1 fr unfolding computed(3)
    by (auto simp: clocksBehind_def listFresh_def tableFresh_def valenceFresh_def Click_def
        list_all_iff list_ex_iff)
  moreover have "mvBondValenceRo s' = mvBondValenceRo s1"
    "mBondValenceCostScale s' = mBondValenceCostScale s1"
    unfolding computed(3) by (simp_all add: Click_def)
  ultimately show ?thesis
    using lazyFrame_fields(6,7)[OF fm] DT_fuel[OF computed(1)] by simp
qed

lemma BVS_stable:
  assumes "listFresh s" "tableFresh s" "valenceFresh s"
  shows "CalcBondValenceSum (Suc k) c P s = Some s"
  using assms DT_stable[OF assms(1,2), of k c P True 5]
  by (simp add: CalcBondValenceSum_def valenceFresh_def)

lemma BVS_total:
  assumes "clocksBehind s"
  shows "\<exists>s'. CalcBondValenceSum (Suc (Suc k)) c P s = Some s'"
proof -
  from DT_total[OF assms] obtain s1 where "CalcDistTable (Suc (Suc k)) c P True 5 s = Some s1"
    by blast
  then show ?thesis by (auto simp: CalcBondValenceSum_def)
qed

lemma BV_twice:
  assumes cb: "clocksBehind s" and r: "GetBondValenceCost k c P s = Some (r, s')"
  shows "GetBondValenceCost k c P s' = Some (r, s')"
proof -
  consider (off) "mBondValenceCostScale s < 1 / 100000"
    | (none) "\<not> mBondValenceCostScale s < 1 / 100000" "mvBondValenceRo s = []"
    | (on) "\<not> mBondValenceCostScale s < 1 / 100000" "mvBondValenceRo s \<noteq> []"
    by blast
  then show ?thesis
  proof cases
    case off
    with r have "s' = s" by (auto simp: GetBondValenceCost_def split: if_splits)
    with r show ?thesis by simp
  next
    case none
    with r have "s' = s\<lparr>mBondValenceCost := 0\<rparr>" "r = 0"
      by (auto simp: GetBondValenceCost_def Let_def split: if_splits)
    with none show ?thesis
      by (auto simp: GetBondValenceCost_def Let_def split: if_splits)
  next
    case on
    with r obtain s1 where s1: "CalcBondValenceSum k c P s = Some s1"
      by (auto simp: GetBondValenceCost_def split: if_splits option.splits)
    from BVS_done[OF cb on(2) s1] obtain k' where k: "k = Suc k'"
      and cb1: "clocksBehind s1" and fr: "listFresh s1" "tableFresh s1" "valenceFresh s1"
      and eq: "mvBondValenceRo s1 = mvBondValenceRo s"
        "mBondValenceCostScale s1 = mBondValenceCostScale s"
      by blast
    show ?thesis
    proof (cases "valenceCostFresh s1")
      case True
      with r on s1 have s': "s' = s1" "r = mBondValenceCost s1 * mBondValenceCostScale s1"
        by (auto simp: GetBondValenceCost_def valenceCostFresh_def split: if_splits)
      have "CalcBondValenceSum k c P s1 = Some s1"
        unfolding k using fr by (rule BVS_stable)
      with True on eq s' show ?thesis
        by (auto simp: GetBondValenceCost_def valenceCostFresh_def split: if_splits)
    next
      case False
      with r on s1 have s': "s' = Click (\<lambda>t x. x\<lparr>mBondValenceCostClock := t\<rparr>)
                (s1\<lparr>mBondValenceCost :=
                      bondValenceCostSum P (mScattCompList s1) (mvBondValenceCalc s1)\<rparr>)"
        and rv: "r = bondValenceCostSum P (mScattCompList s1) (mvBondValenceCalc s1)
                     * mBondValenceCostScale s1"
        by (auto simp: GetBondValenceCost_def valenceCostFresh_def Let_def Click_def
            split: if_splits)
      have fr': "listFresh s'" "tableFresh s'" "valenceFresh s'" "valenceCostFresh s'"
        using fr cb1 unfolding s'
        by (auto simp: listFresh_def tableFresh_def valenceFresh_def valenceCostFresh_def
            clocksBehind_def Click_def)
      have "CalcBondValenceSum k c P s' = Some s'"
        unfolding k using fr'(1,2,3) by (rule BVS_stable)
      moreover have "mvBondValenceRo s' = mvBondValenceRo s"
        "mBondValenceCostScale s' = mBondValenceCostScale s"
        "mBondValenceCost s' = bondValenceCostSum P (mScattCompList s1) (mvBondValenceCalc s1)"
        using eq unfolding s' by (simp_all add: Click_def)
      ultimately show ?thesis
        using on rv eq fr'(4)
        by (auto simp: GetBondValenceCost_def valenceCostFresh_def split: if_splits)
    qed
  qed
qed

lemma BV_total:
  assumes "clocksBehind s"
  shows "\<exists>r s'. GetBondValenceCost (Suc (Suc k)) c P s = Some (r, s')"
proof -
  from BVS_total[OF assms] obtain s1 where "CalcBondValenceSum (Suc (Suc k)) c P s = Some s1"
    by blast
  then show ?thesis by (auto simp: GetBondValenceCost_def Let_def)
qed

text \<open>
  Claim C9. In a state in which no clock is ahead of the global counter, a call of
  \<^verbatim>\<open>GetBumpMergeCost\<close> that returns \<open>r\<close> and leaves the state \<open>s'\<close> is followed, with no
  mutation in between, by a call that returns the same \<open>r\<close> and leaves \<open>s'\<close> as it is:
  no clock clicks, so no branch that recomputes the component list, the distance table,
  the dynamical occupancy correction or the cost was taken. The same holds for
  \<^verbatim>\<open>GetBondValenceCost\<close> with the valence sums and the valence cost. Both getters
  return when the recursion through \<^verbatim>\<open>GetScatteringComponentList\<close> may be two deep.
\<close>

theorem cost_getters_idempotent:
  assumes "clocksBehind s"
  shows "(GetBumpMergeCost k c P s = Some (r, s') \<longrightarrow> GetBumpMergeCost k c P s' = Some (r, s'))
       \<and> (GetBondValenceCost k c P s = Some (r, s') \<longrightarrow> GetBondValenceCost k c P s' = Some (r, s'))
       \<and> (\<exists>r1 s1. GetBumpMergeCost (Suc (Suc k)) c P s = Some (r1, s1))
       \<and> (\<exists>r2 s2. GetBondValenceCost (Suc (Suc k)) c P s = Some (r2, s2))"
  using BM_twice[OF assms] BV_twice[OF assms] BM_total[OF assms] BV_total[OF assms] by blast

lemma bumpedCrystal_clocks: "clocksBehind bumpedCrystal"
  by (simp add: bumpedCrystal_def AddBondValenceRo_def SetBumpMergeDistance4_def crystal_eval
      clocksBehind_def)

theorem cost_getters_idempotent_witness:
  "clocksBehind bumpedCrystal
   \<and> (\<exists>r s'. GetBumpMergeCost (Suc (Suc 0)) (cellP1 10) (powersWith (\<lambda>p. 0)) bumpedCrystal = Some (r, s')
            \<and> GetBumpMergeCost (Suc (Suc 0)) (cellP1 10) (powersWith (\<lambda>p. 0)) s' = Some (r, s'))
   \<and> (\<exists>r s'. GetBondValenceCost (Suc (Suc 0)) (cellP1 10) (powersWith (\<lambda>p. 0)) bumpedCrystal = Some (r, s')
            \<and> GetBondValenceCost (Suc (Suc 0)) (cellP1 10) (powersWith (\<lambda>p. 0)) s' = Some (r, s'))"
proof -
  note h = bumpedCrystal_clocks
  from cost_getters_idempotent [OF h, of 0 "cellP1 10" "powersWith (\<lambda>p. 0)"]
  obtain r1 s1 r2 s2
    where a: "GetBumpMergeCost (Suc (Suc 0)) (cellP1 10) (powersWith (\<lambda>p. 0)) bumpedCrystal = Some (r1, s1)"
      and b: "GetBondValenceCost (Suc (Suc 0)) (cellP1 10) (powersWith (\<lambda>p. 0)) bumpedCrystal = Some (r2, s2)"
    by blast
  from a cost_getters_idempotent [OF h, of "Suc (Suc 0)" "cellP1 10" "powersWith (\<lambda>p. 0)" r1 s1]
  have a': "GetBumpMergeCost (Suc (Suc 0)) (cellP1 10) (powersWith (\<lambda>p. 0)) s1 = Some (r1, s1)"
    by blast
  from b cost_getters_idempotent [OF h, of "Suc (Suc 0)" "cellP1 10" "powersWith (\<lambda>p. 0)" r2 s2]
  have b': "GetBondValenceCost (Suc (Suc 0)) (cellP1 10) (powersWith (\<lambda>p. 0)) s2 = Some (r2, s2)"
    by blast
  from h a a' b b' show ?thesis by blast
qed

section \<open>Proofs: the value of the bump-merge cost\<close>





text \<open>
  Claim C6, as amended. \<^verbatim>\<open>GetBumpMergeCost\<close> returns \<open>0\<close> when no pairwise parameters
  are configured or the scale is below \<open>1e-5\<close>. Otherwise \<^verbatim>\<open>CalcDistTable(true,3)\<close>
  returns, and when the cached cost is stale (as it is after every change of the
  parameters) and every configured minimum distance is non-zero, the cost is computed,
  stored and returned as the specification words it: the sum over the neighbour pairs
  whose species pair is in the table and whose squared distance is below the threshold of
  the pair, of \<open>(0.5 sin(pi (1 - d/dmin)) / 0.1)\<^sup>2\<close> when the pair can overlap and of
  \<open>(tan(pi 0.49999 (1 - d/dmin)) / 0.1)\<^sup>2\<close> otherwise, times the multiplicity of the space
  group, times the scale. (A pair exactly at the threshold is summed by the code and
  adds \<open>0\<close>.) The next call finds the cache fresh and returns the stored cost, the same
  sum for the same table. All this holds in a state in which no clock is ahead of the
  global counter.
\<close>

theorem bump_merge_cost_value:
  assumes cb: "clocksBehind s"
    and pos: "\<forall>e \<in> set (mvBumpMergePar s). 0 < bmDist2 (snd e)"
  shows "(mvBumpMergePar s = [] \<or> mBumpMergeScale s < 1 / 100000
            \<longrightarrow> GetBumpMergeCost k c P s = Some (0, s))
       \<and> (\<exists>s1. CalcDistTable (Suc (Suc k)) c P True 3 s = Some s1
              \<and> (mBumpMergeCostClock s \<le> mBumpMergeParClock s \<longrightarrow> \<not> bumpCostFresh s1)
              \<and> (mvBumpMergePar s \<noteq> [] \<and> \<not> mBumpMergeScale s < 1 / 100000 \<and> \<not> bumpCostFresh s1
                  \<longrightarrow> (\<exists>s'. GetBumpMergeCost (Suc (Suc k)) c P s
                              = Some (bumpMergeCostSpec (mvBumpMergePar s) (mScattCompList s1)
                                        (mvDistTableSq s1) (nbSymmetrics c) (mBumpMergeScale s), s')
                            \<and> mScattCompList s' = mScattCompList s1
                            \<and> mvDistTableSq s' = mvDistTableSq s1
                            \<and> GetBumpMergeCost (Suc (Suc k)) c P s'
                              = Some (bumpMergeCostSpec (mvBumpMergePar s) (mScattCompList s1)
                                        (mvDistTableSq s1) (nbSymmetrics c) (mBumpMergeScale s), s'))))"
proof (intro conjI)
  show "mvBumpMergePar s = [] \<or> mBumpMergeScale s < 1 / 100000
            \<longrightarrow> GetBumpMergeCost k c P s = Some (0, s)"
    by (auto simp: GetBumpMergeCost_def)
next
  from DT_total[OF cb] obtain s1 where dt: "CalcDistTable (Suc (Suc k)) c P True 3 s = Some s1"
    by blast
  from dt have "tableDone s s1" by (rule DT_done)
  then have fm: "lazyFrame s1 = lazyFrame s" by (simp add: tableDone_def)
  note eq = lazyFrame_fields(1,2,3,4)[OF fm]
  have stale: "mBumpMergeCostClock s \<le> mBumpMergeParClock s \<longrightarrow> \<not> bumpCostFresh s1"
    using eq by (simp add: bumpCostFresh_def)
  have main: "\<exists>s'. GetBumpMergeCost (Suc (Suc k)) c P s
                              = Some (bumpMergeCostSpec (mvBumpMergePar s) (mScattCompList s1)
                                        (mvDistTableSq s1) (nbSymmetrics c) (mBumpMergeScale s), s')
                            \<and> mScattCompList s' = mScattCompList s1
                            \<and> mvDistTableSq s' = mvDistTableSq s1
                            \<and> GetBumpMergeCost (Suc (Suc k)) c P s'
                              = Some (bumpMergeCostSpec (mvBumpMergePar s) (mScattCompList s1)
                                        (mvDistTableSq s1) (nbSymmetrics c) (mBumpMergeScale s), s')"
    if on: "mvBumpMergePar s \<noteq> []" "\<not> mBumpMergeScale s < 1 / 100000" and nf: "\<not> bumpCostFresh s1"
  proof -
    let ?s' = "Click (\<lambda>t x. x\<lparr>mBumpMergeCostClock := t\<rparr>)
              (s1\<lparr>mBumpMergeCost :=
                    bumpMergeSum (mvBumpMergePar s1) (mScattCompList s1) (mvDistTableSq s1)
                    * of_nat (nbSymmetrics c)\<rparr>)"
    have sum: "bumpMergeSum (mvBumpMergePar s1) (mScattCompList s1) (mvDistTableSq s1)
        = (\<Sum>e \<leftarrow> filter (bumpMergeQualifies (mvBumpMergePar s) (mScattCompList s1))
                      (neighbourPairs (mvDistTableSq s1)).
             bumpMergePenalty (mCanOverlap (the (pairPar (mvBumpMergePar s) (mScattCompList s1) e)))
               (sqrt (mDist2 (snd e)))
               (sqrt (bmDist2 (the (pairPar (mvBumpMergePar s) (mScattCompList s1) e)))))"
      unfolding eq using pos by (rule bumpMergeSum_spec)
    have spec: "bumpMergeCostSpec (mvBumpMergePar s) (mScattCompList s1) (mvDistTableSq s1)
                  (nbSymmetrics c) (mBumpMergeScale s)
        = bumpMergeSum (mvBumpMergePar s1) (mScattCompList s1) (mvDistTableSq s1)
          * of_nat (nbSymmetrics c) * mBumpMergeScale s"
      using on unfolding sum by (simp add: bumpMergeCostSpec_def)
    have r: "GetBumpMergeCost (Suc (Suc k)) c P s
        = Some (bumpMergeCostSpec (mvBumpMergePar s) (mScattCompList s1) (mvDistTableSq s1)
                  (nbSymmetrics c) (mBumpMergeScale s), ?s')"
      using on nf dt eq unfolding spec
      by (auto simp: GetBumpMergeCost_def bumpCostFresh_def Let_def Click_def split: if_splits)
    have "mScattCompList ?s' = mScattCompList s1" "mvDistTableSq ?s' = mvDistTableSq s1"
      by (simp_all add: Click_def)
    with r BM_twice[OF cb r] show ?thesis by blast
  qed
  from dt stale main
  show "\<exists>s1. CalcDistTable (Suc (Suc k)) c P True 3 s = Some s1
              \<and> (mBumpMergeCostClock s \<le> mBumpMergeParClock s \<longrightarrow> \<not> bumpCostFresh s1)
              \<and> (mvBumpMergePar s \<noteq> [] \<and> \<not> mBumpMergeScale s < 1 / 100000 \<and> \<not> bumpCostFresh s1
                  \<longrightarrow> (\<exists>s'. GetBumpMergeCost (Suc (Suc k)) c P s
                              = Some (bumpMergeCostSpec (mvBumpMergePar s) (mScattCompList s1)
                                        (mvDistTableSq s1) (nbSymmetrics c) (mBumpMergeScale s), s')
                            \<and> mScattCompList s' = mScattCompList s1
                            \<and> mvDistTableSq s' = mvDistTableSq s1
                            \<and> GetBumpMergeCost (Suc (Suc k)) c P s'
                              = Some (bumpMergeCostSpec (mvBumpMergePar s) (mScattCompList s1)
                                        (mvDistTableSq s1) (nbSymmetrics c) (mBumpMergeScale s), s')))"
    by blast
qed

theorem bump_merge_cost_value_witness:
  "clocksBehind bumpedCrystal
   \<and> list_all (\<lambda>e. 0 < bmDist2 (snd e)) (mvBumpMergePar bumpedCrystal)
   \<and> mvBumpMergePar bumpedCrystal \<noteq> [] \<and> \<not> mBumpMergeScale bumpedCrystal < 1 / 100000
   \<and> mBumpMergeCostClock bumpedCrystal \<le> mBumpMergeParClock bumpedCrystal
   \<and> (\<exists>s1 s'. CalcDistTable (Suc (Suc 0)) (cellP1 10) (powersWith (\<lambda>p. 0)) True 3 bumpedCrystal = Some s1
        \<and> \<not> bumpCostFresh s1
        \<and> GetBumpMergeCost (Suc (Suc 0)) (cellP1 10) (powersWith (\<lambda>p. 0)) bumpedCrystal
            = Some (bumpMergeCostSpec (mvBumpMergePar bumpedCrystal) (mScattCompList s1)
                      (mvDistTableSq s1) (nbSymmetrics (cellP1 10)) (mBumpMergeScale bumpedCrystal), s')
        \<and> GetBumpMergeCost (Suc (Suc 0)) (cellP1 10) (powersWith (\<lambda>p. 0)) s'
            = Some (bumpMergeCostSpec (mvBumpMergePar bumpedCrystal) (mScattCompList s1)
                      (mvDistTableSq s1) (nbSymmetrics (cellP1 10)) (mBumpMergeScale bumpedCrystal), s'))
   \<and> fst (the (GetBumpMergeCost (Suc (Suc 0)) (cellP1 10) (powersWith (\<lambda>p. 0)) bumpedCrystal))
       = (tan (pi * 0.49999 * (1 - sqrt (16769025 / 4194304 / 9))) / 0.1)\<^sup>2
         + (tan (pi * 0.49999 * (1 - sqrt (268140625 / 67108864 / 9))) / 0.1)\<^sup>2"
proof -
  note h0 = bumpedCrystal_clocks
  have h1: "\<forall>e \<in> set (mvBumpMergePar bumpedCrystal). 0 < bmDist2 (snd e)"
    by (simp add: bumpedCrystal_def AddBondValenceRo_def SetBumpMergeDistance4_def crystal_eval
        BumpMergePar2_def)
  have h2: "mvBumpMergePar bumpedCrystal \<noteq> []" "\<not> mBumpMergeScale bumpedCrystal < 1 / 100000"
    "mBumpMergeCostClock bumpedCrystal \<le> mBumpMergeParClock bumpedCrystal"
    by (simp_all add: bumpedCrystal_def AddBondValenceRo_def SetBumpMergeDistance4_def crystal_eval)
  have v: "fst (the (GetBumpMergeCost (Suc (Suc 0)) (cellP1 10) (powersWith (\<lambda>p. 0)) bumpedCrystal))
       = (tan (pi * 0.49999 * (1 - sqrt (16769025 / 4194304 / 9))) / 0.1)\<^sup>2
         + (tan (pi * 0.49999 * (1 - sqrt (268140625 / 67108864 / 9))) / 0.1)\<^sup>2"
    by (simp add: cost_eval lazy_eval crystal_eval distTable_eval power2_eq_square)
  from bump_merge_cost_value [OF h0 h1, of 0 "cellP1 10" "powersWith (\<lambda>p. 0)"] h0 h1 h2 v
  show ?thesis
    by (simp add: list_all_iff) blast
qed

text \<open>
  Claim C6 as stated fails for a minimum distance of \<open>0\<close>. Two atoms of different species
  at the same position, \<^verbatim>\<open>SetBumpMergeDistance(scatt1,scatt2,0)\<close>: the squared distance \<open>0\<close>
  is not below the threshold \<open>0\<close>, so the sum as worded has no term and is \<open>0\<close>; the
  code skips a pair only when its squared distance exceeds the threshold, so it adds the
  term of both records, in which \<open>d/dmin\<close> is \<open>0/0\<close> (not a number in floating point,
  \<open>0\<close> here), and does not return \<open>0\<close>.
\<close>

theorem bump_merge_zero_distance_counterexample:
  "mvBumpMergePar zeroDistCrystal = [((1, 2), \<lparr>bmDist2 = 0, mCanOverlap = False\<rparr>)]
   \<and> bumpMergeCostSpec (mvBumpMergePar zeroDistCrystal)
        (mScattCompList (the (CalcDistTable (Suc (Suc 0)) (cellP1 10) (powersWith (\<lambda>p. 0)) True 3 zeroDistCrystal)))
        (mvDistTableSq (the (CalcDistTable (Suc (Suc 0)) (cellP1 10) (powersWith (\<lambda>p. 0)) True 3 zeroDistCrystal)))
        (nbSymmetrics (cellP1 10)) (mBumpMergeScale zeroDistCrystal) = 0
   \<and> fst (the (GetBumpMergeCost (Suc (Suc 0)) (cellP1 10) (powersWith (\<lambda>p. 0)) zeroDistCrystal))
       = bumpMergeTerm \<lparr>bmDist2 = 0, mCanOverlap = False\<rparr> 0
         + bumpMergeTerm \<lparr>bmDist2 = 0, mCanOverlap = False\<rparr> 0
   \<and> fst (the (GetBumpMergeCost (Suc (Suc 0)) (cellP1 10) (powersWith (\<lambda>p. 0)) zeroDistCrystal)) \<noteq> 0"
proof -
  have t: "0 < tan (pi * 49999 / 100000)"
  proof (rule tan_gt_zero)
    show "0 < pi * 49999 / 100000" by simp
    have "pi * 49999 / 100000 = pi / 2 * (49999 / 50000)" by simp
    also have "\<dots> < pi / 2 * 1" by (rule mult_strict_left_mono) simp_all
    finally show "pi * 49999 / 100000 < pi / 2" by simp
  qed
  have p: "mvBumpMergePar zeroDistCrystal = [((1, 2), \<lparr>bmDist2 = 0, mCanOverlap = False\<rparr>)]"
    by (simp add: zeroDistCrystal_def cost_eval crystal_eval)
  have s: "bumpMergeCostSpec (mvBumpMergePar zeroDistCrystal)
        (mScattCompList (the (CalcDistTable (Suc (Suc 0)) (cellP1 10) (powersWith (\<lambda>p. 0)) True 3 zeroDistCrystal)))
        (mvDistTableSq (the (CalcDistTable (Suc (Suc 0)) (cellP1 10) (powersWith (\<lambda>p. 0)) True 3 zeroDistCrystal)))
        (nbSymmetrics (cellP1 10)) (mBumpMergeScale zeroDistCrystal) = 0"
    by (simp add: zeroDistCrystal_def cost_eval lazy_eval crystal_eval distTable_eval
        bumpMergeCostSpec_def bumpMergeQualifies_def neighbourPairs_def pairPar_def pairKey_def)
  have c: "fst (the (GetBumpMergeCost (Suc (Suc 0)) (cellP1 10) (powersWith (\<lambda>p. 0)) zeroDistCrystal))
       = 100 * (tan (pi * 49999 / 100000) * tan (pi * 49999 / 100000))
         + 100 * (tan (pi * 49999 / 100000) * tan (pi * 49999 / 100000))"
    by (simp add: zeroDistCrystal_def cost_eval lazy_eval crystal_eval distTable_eval)
  have b: "bumpMergeTerm \<lparr>bmDist2 = 0, mCanOverlap = False\<rparr> 0
       = 100 * (tan (pi * 49999 / 100000) * tan (pi * 49999 / 100000))"
    by (simp add: bumpMergeTerm_def)
  from t have "tan (pi * 49999 / 100000) \<noteq> 0" by simp
  with p s c b show ?thesis by simp
qed

section \<open>Proofs: the stored bond valence sums\<close>

text \<open>
  Claim C7, as amended. \<^verbatim>\<open>CalcBondValenceSum\<close> returns at once, leaving the stored map
  as it is, when no reference bond length is configured. Otherwise
  \<^verbatim>\<open>CalcDistTable(true,5)\<close> returns, and when the stored sums are stale (as they are
  after every change of the reference lengths) the map is cleared and refilled: for
  component \<open>i\<close> it holds the sum, over the neighbours of \<open>i\<close> whose species pair has a
  reference bond length \<open>R0\<close>, of
  \<open>occupancy(neighbour) * dynPopCorr(neighbour) * exp ((R0 - d) / 0.37)\<close>, the weight being
  the occupancy of the neighbour times its dynamical occupancy correction, and it has no
  entry for a component without such a neighbour. The next call finds the sums fresh
  and leaves the state as it is. All this holds in a state in which no clock is ahead of
  the global counter.
\<close>

theorem bond_valence_sums:
  assumes cb: "clocksBehind s"
  shows "(mvBondValenceRo s = [] \<longrightarrow> CalcBondValenceSum k c P s = Some s)
       \<and> (\<exists>s1. CalcDistTable (Suc (Suc k)) c P True 5 s = Some s1
              \<and> (mBondValenceCalcClock s \<le> mBondValenceParClock s \<longrightarrow> \<not> valenceFresh s1)
              \<and> (mvBondValenceRo s \<noteq> [] \<and> \<not> valenceFresh s1
                  \<longrightarrow> (\<exists>s'. CalcBondValenceSum (Suc (Suc k)) c P s = Some s'
                            \<and> mScattCompList s' = mScattCompList s1
                            \<and> mvDistTableSq s' = mvDistTableSq s1
                            \<and> map_of (mvBondValenceCalc s') i
                              = (if i < length (mScattCompList s1)
                                    \<and> bondNeighbours (mvBondValenceRo s) (mScattCompList s1)
                                         (mvDistTableSq s1) i \<noteq> []
                                 then Some (valenceSumCorrected (mvBondValenceRo s) (mScattCompList s1)
                                              (mvDistTableSq s1) i)
                                 else None)
                            \<and> CalcBondValenceSum (Suc (Suc k)) c P s' = Some s')))"
proof (intro conjI)
  show "mvBondValenceRo s = [] \<longrightarrow> CalcBondValenceSum k c P s = Some s"
    by (simp add: CalcBondValenceSum_def)
next
  from DT_total[OF cb] obtain s1 where dt: "CalcDistTable (Suc (Suc k)) c P True 5 s = Some s1"
    by blast
  from dt have "tableDone s s1" by (rule DT_done)
  then have fm: "lazyFrame s1 = lazyFrame s" by (simp add: tableDone_def)
  note eq = lazyFrame_fields(6,8,9)[OF fm]
  have stale: "mBondValenceCalcClock s \<le> mBondValenceParClock s \<longrightarrow> \<not> valenceFresh s1"
    using eq by (simp add: valenceFresh_def)
  have main: "\<exists>s'. CalcBondValenceSum (Suc (Suc k)) c P s = Some s'
                \<and> mScattCompList s' = mScattCompList s1
                \<and> mvDistTableSq s' = mvDistTableSq s1
                \<and> map_of (mvBondValenceCalc s') i
                  = (if i < length (mScattCompList s1)
                        \<and> bondNeighbours (mvBondValenceRo s) (mScattCompList s1)
                             (mvDistTableSq s1) i \<noteq> []
                     then Some (valenceSumCorrected (mvBondValenceRo s) (mScattCompList s1)
                                  (mvDistTableSq s1) i)
                     else None)
                \<and> CalcBondValenceSum (Suc (Suc k)) c P s' = Some s'"
    if on: "mvBondValenceRo s \<noteq> []" and nf: "\<not> valenceFresh s1"
  proof -
    let ?s' = "Click (\<lambda>t x. x\<lparr>mBondValenceCalcClock := t\<rparr>)
              (s1\<lparr>mvBondValenceCalc :=
                    calcBondValenceSum (mvBondValenceRo s1) (mScattCompList s1) (mvDistTableSq s1)\<rparr>)"
    have r: "CalcBondValenceSum (Suc (Suc k)) c P s = Some ?s'"
      using on nf dt by (auto simp: CalcBondValenceSum_def valenceFresh_def)
    from BVS_done[OF cb on r] have "listFresh ?s'" "tableFresh ?s'" "valenceFresh ?s'"
      by simp_all
    then have again: "CalcBondValenceSum (Suc (Suc k)) c P ?s' = Some ?s'"
      by (rule BVS_stable)
    have m: "map_of (mvBondValenceCalc ?s') i
        = (if i < length (mScattCompList s1)
              \<and> bondNeighbours (mvBondValenceRo s) (mScattCompList s1) (mvDistTableSq s1) i \<noteq> []
           then Some (valenceSumCorrected (mvBondValenceRo s) (mScattCompList s1) (mvDistTableSq s1) i)
           else None)"
      unfolding eq(1)[symmetric]
      by (simp add: Click_def calcBondValenceSum_map)
    have "mScattCompList ?s' = mScattCompList s1" "mvDistTableSq ?s' = mvDistTableSq s1"
      by (simp_all add: Click_def)
    with r m again show ?thesis by blast
  qed
  from dt stale main
  show "\<exists>s1. CalcDistTable (Suc (Suc k)) c P True 5 s = Some s1
              \<and> (mBondValenceCalcClock s \<le> mBondValenceParClock s \<longrightarrow> \<not> valenceFresh s1)
              \<and> (mvBondValenceRo s \<noteq> [] \<and> \<not> valenceFresh s1
                  \<longrightarrow> (\<exists>s'. CalcBondValenceSum (Suc (Suc k)) c P s = Some s'
                            \<and> mScattCompList s' = mScattCompList s1
                            \<and> mvDistTableSq s' = mvDistTableSq s1
                            \<and> map_of (mvBondValenceCalc s') i
                              = (if i < length (mScattCompList s1)
                                    \<and> bondNeighbours (mvBondValenceRo s) (mScattCompList s1)
                                         (mvDistTableSq s1) i \<noteq> []
                                 then Some (valenceSumCorrected (mvBondValenceRo s) (mScattCompList s1)
                                              (mvDistTableSq s1) i)
                                 else None)
                            \<and> CalcBondValenceSum (Suc (Suc k)) c P s' = Some s'))"
    by blast
qed

lemma mixedCrystal_clocks: "clocksBehind mixedCrystal"
  by (simp add: mixedCrystal_def AddBondValenceRo_def crystal_eval clocksBehind_def)

theorem bond_valence_sums_witness:
  "clocksBehind mixedCrystal \<and> mvBondValenceRo mixedCrystal \<noteq> []
   \<and> mBondValenceCalcClock mixedCrystal \<le> mBondValenceParClock mixedCrystal
   \<and> (\<exists>s1 s'. CalcDistTable (Suc (Suc 0)) (cellP1 10) (powersWith (\<lambda>p. 0)) True 5 mixedCrystal = Some s1
        \<and> \<not> valenceFresh s1
        \<and> CalcBondValenceSum (Suc (Suc 0)) (cellP1 10) (powersWith (\<lambda>p. 0)) mixedCrystal = Some s'
        \<and> map_of (mvBondValenceCalc s') 0
            = Some (valenceSumCorrected (mvBondValenceRo mixedCrystal) (mScattCompList s1)
                      (mvDistTableSq s1) 0)
        \<and> map_of (mvBondValenceCalc s') 2 = None
        \<and> CalcBondValenceSum (Suc (Suc 0)) (cellP1 10) (powersWith (\<lambda>p. 0)) s' = Some s')
   \<and> mvBondValenceCalc (the (CalcBondValenceSum (Suc (Suc 0)) (cellP1 10) (powersWith (\<lambda>p. 0)) mixedCrystal))
       = [(0, exp ((2 - sqrt (25 / 4)) / 0.37)), (1, exp ((2 - sqrt (419225625 / 67108864)) / 0.37))]
   \<and> CalcBondValenceSum 0 (cellP1 10) (powersWith (\<lambda>p. 0)) newCrystal = Some newCrystal"
proof -
  note h0 = mixedCrystal_clocks
  have h1: "mvBondValenceRo mixedCrystal \<noteq> []"
    "mBondValenceCalcClock mixedCrystal \<le> mBondValenceParClock mixedCrystal"
    by (simp_all add: mixedCrystal_def AddBondValenceRo_def crystal_eval)
  have h2: "clocksBehind newCrystal" "mvBondValenceRo newCrystal = []"
    by (simp_all add: newCrystal_def clocksBehind_def)
  have v: "mvBondValenceCalc (the (CalcBondValenceSum (Suc (Suc 0)) (cellP1 10) (powersWith (\<lambda>p. 0)) mixedCrystal))
       = [(0, exp ((2 - sqrt (25 / 4)) / 0.37)), (1, exp ((2 - sqrt (419225625 / 67108864)) / 0.37))]"
    by (simp add: mixedCrystal_def cost_eval lazy_eval crystal_eval distTable_eval)
  from bond_valence_sums [OF h0, of 0 "cellP1 10" "powersWith (\<lambda>p. 0)" 0] h1
  obtain s1 s' where a: "CalcDistTable (Suc (Suc 0)) (cellP1 10) (powersWith (\<lambda>p. 0)) True 5 mixedCrystal = Some s1"
      "\<not> valenceFresh s1"
      "CalcBondValenceSum (Suc (Suc 0)) (cellP1 10) (powersWith (\<lambda>p. 0)) mixedCrystal = Some s'"
      "map_of (mvBondValenceCalc s') 0
            = (if 0 < length (mScattCompList s1)
                  \<and> bondNeighbours (mvBondValenceRo mixedCrystal) (mScattCompList s1) (mvDistTableSq s1) 0 \<noteq> []
               then Some (valenceSumCorrected (mvBondValenceRo mixedCrystal) (mScattCompList s1)
                      (mvDistTableSq s1) 0) else None)"
      "CalcBondValenceSum (Suc (Suc 0)) (cellP1 10) (powersWith (\<lambda>p. 0)) s' = Some s'"
    by blast
  from a(1) have s1: "s1 = the (CalcDistTable (Suc (Suc 0)) (cellP1 10) (powersWith (\<lambda>p. 0)) True 5 mixedCrystal)"
    by simp
  have n0: "0 < length (mScattCompList s1)
      \<and> bondNeighbours (mvBondValenceRo mixedCrystal) (mScattCompList s1) (mvDistTableSq s1) 0 \<noteq> []"
    unfolding s1
    by (simp add: mixedCrystal_def cost_eval lazy_eval crystal_eval distTable_eval
        bondNeighbours_def bondRo_def pairKey_def)
  from bond_valence_sums [OF h0, of 0 "cellP1 10" "powersWith (\<lambda>p. 0)" 2] h1 a(1,2,3)
  have b: "map_of (mvBondValenceCalc s') 2
            = (if 2 < length (mScattCompList s1)
                  \<and> bondNeighbours (mvBondValenceRo mixedCrystal) (mScattCompList s1) (mvDistTableSq s1) 2 \<noteq> []
               then Some (valenceSumCorrected (mvBondValenceRo mixedCrystal) (mScattCompList s1)
                      (mvDistTableSq s1) 2) else None)"
    by auto
  have n2: "bondNeighbours (mvBondValenceRo mixedCrystal) (mScattCompList s1) (mvDistTableSq s1) 2 = []"
    unfolding s1
    by (simp add: mixedCrystal_def cost_eval lazy_eval crystal_eval distTable_eval
        bondNeighbours_def bondRo_def pairKey_def)
  from bond_valence_sums [OF h2(1), of 0 "cellP1 10" "powersWith (\<lambda>p. 0)"] h2(2)
  have e: "CalcBondValenceSum 0 (cellP1 10) (powersWith (\<lambda>p. 0)) newCrystal = Some newCrystal"
    by blast
  from a(4) n0 have a4: "map_of (mvBondValenceCalc s') 0
            = Some (valenceSumCorrected (mvBondValenceRo mixedCrystal) (mScattCompList s1)
                      (mvDistTableSq s1) 0)" by simp
  from b n2 have b2: "map_of (mvBondValenceCalc s') 2 = None" by simp
  from h0 h1 a(1,2,3,5) a4 b2 v e show ?thesis by blast
qed

text \<open>
  Claim C7 as stated fails: with an atom of species \<open>1\<close> next to two coinciding atoms of
  species \<open>2\<close> (each of occupancy \<open>1\<close>, each with a dynamical occupancy correction of
  \<open>1/2\<close>), the valence stored for the first atom is not the sum weighted by the nominal
  occupancies. And when the only reference length is removed afterwards, the next call
  returns before the map is cleared: the map still holds the entries of all three atoms,
  none of which has a contributing bond any more.
\<close>

theorem valence_nominal_counterexample:
  "map_of (mvBondValenceCalc (the (CalcBondValenceSum (Suc (Suc 0)) (cellP1 10) (powersWith (\<lambda>p. 0))
             bondedCrystal))) 0
   \<noteq> Some (valenceSumNominal
        (mvBondValenceRo (the (CalcBondValenceSum (Suc (Suc 0)) (cellP1 10) (powersWith (\<lambda>p. 0)) bondedCrystal)))
        (mScattCompList (the (CalcBondValenceSum (Suc (Suc 0)) (cellP1 10) (powersWith (\<lambda>p. 0)) bondedCrystal)))
        (mvDistTableSq (the (CalcBondValenceSum (Suc (Suc 0)) (cellP1 10) (powersWith (\<lambda>p. 0)) bondedCrystal)))
        0)
   \<and> mvBondValenceRo (RemoveBondValenceRo 1 2
        (the (CalcBondValenceSum (Suc (Suc 0)) (cellP1 10) (powersWith (\<lambda>p. 0)) bondedCrystal))) = []
   \<and> map fst (mvBondValenceCalc (the (CalcBondValenceSum (Suc (Suc 0)) (cellP1 10) (powersWith (\<lambda>p. 0))
        (RemoveBondValenceRo 1 2
          (the (CalcBondValenceSum (Suc (Suc 0)) (cellP1 10) (powersWith (\<lambda>p. 0)) bondedCrystal))))))
       = [0, 1, 2]"
  by (simp add: CalcBondValenceSum_def bondedCrystal_def AddBondValenceRo_def RemoveBondValenceRo_def
      lazy_eval crystal_eval
      distTable_eval calcBondValenceSum_def bondValenceOf_def bondValenceStep_def
      valenceSumNominal_def bondNeighbours_def bondRo_def pairKey_def)

section \<open>Proofs: the log-likelihood\<close>



section \<open>Proofs: the unique position of a component\<close>

lemma lastBelow_Some:
  "lastBelow q n = Some j \<longleftrightarrow> j < n \<and> q j \<and> (\<forall>j'. j < j' \<and> j' < n \<longrightarrow> \<not> q j')"
proof (induction n)
  case 0
  then show ?case by simp
next
  case (Suc n)
  show ?case
  proof (cases "q n")
    case True
    then show ?thesis
      by (auto simp: less_Suc_eq)
  next
    case False
    then show ?thesis
      using Suc by (auto simp: less_Suc_eq)
  qed
qed

lemma addPosition_tbl:
  "snd (snd (addPosition ua nr ins i j p b)) =
     (if \<not> ua \<or> (nr \<and> ins)
      then (snd (snd b))[i := (snd (snd b) ! i)\<lparr>mUniquePosSymmetryIndex := j\<rparr>]
      else snd (snd b))"
  by (cases b) (simp add: addPosition_def)

lemma symPos_tbl:
  "snd (snd ((if fast then symPosFast c m cmpt i j else symPosExact c m cmpt i j) b)) =
     (if becomesUnique c fast m cmpt i j
      then (snd (snd b))[i := (snd (snd b) ! i)\<lparr>mUniquePosSymmetryIndex := j\<rparr>]
      else snd (snd b))"
  by (simp add: symPosFast_def symPosExact_def Let_def addPosition_tbl becomesUnique_def)

lemma setUnique_Suc:
  "setUnique q (Suc n) nh = (if q n then nh\<lparr>mUniquePosSymmetryIndex := n\<rparr> else setUnique q n nh)"
  by (simp add: setUnique_def)

lemma inner_tbl:
  "snd (snd (fold (\<lambda>j. if fast then symPosFast c m cmpt i j else symPosExact c m cmpt i j)
               [0..<n] b)) =
     (snd (snd b))[i := setUnique (becomesUnique c fast m cmpt i) n (snd (snd b) ! i)]"
proof (induction n)
  case 0
  then show ?case by (simp add: setUnique_def)
next
  case (Suc n)
  let ?f = "\<lambda>j. if fast then symPosFast c m cmpt i j else symPosExact c m cmpt i j"
  let ?b = "fold ?f [0..<n] b"
  have "fold ?f [0..<Suc n] b = ?f n ?b" by simp
  then have "snd (snd (fold ?f [0..<Suc n] b)) = snd (snd (?f n ?b))" by (simp only:)
  also have "\<dots> = (if becomesUnique c fast m cmpt i n
      then (snd (snd ?b))[i := (snd (snd ?b) ! i)\<lparr>mUniquePosSymmetryIndex := n\<rparr>]
      else snd (snd ?b))"
    by (rule symPos_tbl)
  finally show ?case
    unfolding Suc.IH setUnique_Suc
    by (cases "i < length (snd (snd b))")
      (simp_all add: setUnique_def list_update_beyond not_less split: option.splits)
qed

lemma outer_step_tbl:
  "snd (snd (fold (\<lambda>j. if fast then symPosFast c m (comps ! i) i j
                           else symPosExact c m (comps ! i) i j)
               [0..<n]
               (case b of (vPos, vUniqueIndex, tbl) \<Rightarrow>
                  (vPos, vUniqueIndex, tbl[i := (tbl ! i)\<lparr>mIndex := i\<rparr>])))) =
     (snd (snd b))[i := setUnique (becomesUnique c fast m (comps ! i) i) n
                          ((snd (snd b) ! i)\<lparr>mIndex := i\<rparr>)]"
  unfolding inner_tbl
  by (cases b; cases "i < length (snd (snd b))") (simp_all add: list_update_beyond not_less)

text \<open>The table after the first pass has handled the components below \<open>k\<close>.\<close>

lemma listPositions_tbl_aux:
  "k \<le> length (snd (snd b)) \<Longrightarrow>
   snd (snd (fold (\<lambda>i b.
             fold (\<lambda>j. if fast then symPosFast c m (comps ! i) i j
                        else symPosExact c m (comps ! i) i j)
               [0..<n]
               (case b of (vPos, vUniqueIndex, tbl) \<Rightarrow>
                  (vPos, vUniqueIndex, tbl[i := (tbl ! i)\<lparr>mIndex := i\<rparr>])))
       [0..<k] b)) =
   map (\<lambda>i. if i < k
             then setUnique (becomesUnique c fast m (comps ! i) i) n
                    ((snd (snd b) ! i)\<lparr>mIndex := i\<rparr>)
             else snd (snd b) ! i) [0..<length (snd (snd b))]"
proof (induction k)
  case 0
  then show ?case by (simp add: map_nth)
next
  case (Suc k)
  let ?step = "\<lambda>i b.
             fold (\<lambda>j. if fast then symPosFast c m (comps ! i) i j
                        else symPosExact c m (comps ! i) i j)
               [0..<n]
               (case b of (vPos, vUniqueIndex, tbl) \<Rightarrow>
                  (vPos, vUniqueIndex, tbl[i := (tbl ! i)\<lparr>mIndex := i\<rparr>]))"
  let ?b = "fold ?step [0..<k] b"
  let ?T = "snd (snd b)"
  from Suc have IH: "snd (snd ?b) =
     map (\<lambda>i. if i < k
             then setUnique (becomesUnique c fast m (comps ! i) i) n ((?T ! i)\<lparr>mIndex := i\<rparr>)
             else ?T ! i) [0..<length ?T]"
    by simp
  from Suc.prems have k: "k < length ?T" by simp
  have "fold ?step [0..<Suc k] b = ?step k ?b" by simp
  then have "snd (snd (fold ?step [0..<Suc k] b)) = snd (snd (?step k ?b))" by (simp only:)
  also have "\<dots> = (snd (snd ?b))[k := setUnique (becomesUnique c fast m (comps ! k) k) n
                          ((snd (snd ?b) ! k)\<lparr>mIndex := k\<rparr>)]"
    by (rule outer_step_tbl)
  also have "\<dots> = map (\<lambda>i. if i < Suc k
             then setUnique (becomesUnique c fast m (comps ! i) i) n ((?T ! i)\<lparr>mIndex := i\<rparr>)
             else ?T ! i) [0..<length ?T]"
    unfolding IH using k
    by (intro nth_equalityI) (auto simp: nth_list_update less_Suc_eq)
  finally show ?case .
qed

lemma listPositions_tbl:
  assumes "length tbl = length comps" "i < length comps"
  shows "snd (snd (listPositions c fast m comps (vPos, vU, tbl))) ! i =
     setUnique (becomesUnique c fast m (comps ! i) i) (nbSymmetrics c) ((tbl ! i)\<lparr>mIndex := i\<rparr>)"
  unfolding listPositions_def
  using assms listPositions_tbl_aux[of "length comps" "(vPos, vU, tbl)" fast c m comps "nbSymmetrics c"]
  by simp

lemma listPositions_length:
  assumes "length tbl = length comps"
  shows "length (snd (snd (listPositions c fast m comps (vPos, vU, tbl)))) = length comps"
  unfolding listPositions_def
  using assms listPositions_tbl_aux[of "length comps" "(vPos, vU, tbl)" fast c m comps "nbSymmetrics c"]
  by simp

lemma push_neighbours_length:
  "length (fold (\<lambda>i tbl. tbl[i := (tbl ! i)\<lparr>mvNeighbour := mvNeighbour (tbl ! i) @ f i\<rparr>])
             ks tbl) = length tbl"
  by (induction ks arbitrary: tbl) simp_all

lemma push_neighbours_unique:
  "i < length tbl \<Longrightarrow>
   mUniquePosSymmetryIndex
     (fold (\<lambda>i tbl. tbl[i := (tbl ! i)\<lparr>mvNeighbour := mvNeighbour (tbl ! i) @ f i\<rparr>])
        ks tbl ! i) = mUniquePosSymmetryIndex (tbl ! i)"
proof (induction ks arbitrary: tbl)
  case Nil
  then show ?case by simp
next
  case (Cons k ks)
  let ?T = "tbl[k := (tbl ! k)\<lparr>mvNeighbour := mvNeighbour (tbl ! k) @ f k\<rparr>]"
  from Cons.prems have "i < length ?T" by simp
  then have "mUniquePosSymmetryIndex
     (fold (\<lambda>i tbl. tbl[i := (tbl ! i)\<lparr>mvNeighbour := mvNeighbour (tbl ! i) @ f i\<rparr>])
        ks ?T ! i) = mUniquePosSymmetryIndex (?T ! i)"
    by (rule Cons.IH)
  also have "\<dots> = mUniquePosSymmetryIndex (tbl ! i)"
    using Cons.prems by (cases "i = k") simp_all
  finally show ?case by simp
qed

lemma computeDistances_unique:
  assumes "i < length tbl"
  shows "mUniquePosSymmetryIndex (computeDistances c fast n (vPos, vU, tbl) ! i)
       = mUniquePosSymmetryIndex (tbl ! i)"
  unfolding computeDistances_def
  using push_neighbours_unique[OF assms, of "\<lambda>i. neighboursOf c fast vPos (vU ! i)" "[0..<n]"]
  by simp

lemma resizeTable_length: "length (resizeTable n tbl) = n"
  by (simp add: resizeTable_def)

lemma buildDistTable_unique:
  assumes "i < length comps"
  shows "mUniquePosSymmetryIndex (buildDistTable c fast m comps tbl ! i) =
     mUniquePosSymmetryIndex
       (setUnique (becomesUnique c fast m (comps ! i) i) (nbSymmetrics c)
          ((resizeTable (length comps) tbl ! i)\<lparr>mIndex := i\<rparr>))"
proof -
  let ?b = "listPositions c fast m comps
              ([], replicate (length comps) 0, resizeTable (length comps) tbl)"
  obtain vPos vU T where b: "?b = (vPos, vU, T)" by (cases ?b)
  have T: "T = snd (snd ?b)" by (simp add: b)
  have len: "length T = length comps"
    unfolding T by (rule listPositions_length) (rule resizeTable_length)
  have "mUniquePosSymmetryIndex (buildDistTable c fast m comps tbl ! i)
      = mUniquePosSymmetryIndex (T ! i)"
    unfolding buildDistTable_def b using assms len by (simp add: computeDistances_unique)
  also have "T ! i = setUnique (becomesUnique c fast m (comps ! i) i) (nbSymmetrics c)
          ((resizeTable (length comps) tbl ! i)\<lparr>mIndex := i\<rparr>)"
    unfolding T using resizeTable_length assms by (rule listPositions_tbl)
  finally show ?thesis .
qed

text \<open>
  Claim C1, as amended. \<^verbatim>\<open>CalcDistTable\<close> restricts to the asymmetric unit exactly when
  \<open>xMax0 * yMax0 * zMax0 < 0.6\<close>. For each component \<open>i\<close>, \<^verbatim>\<open>mUniquePosSymmetryIndex\<close> is
  overwritten by every symmetric position that qualifies, so it ends as the last one:
  without restriction the last symmetric position generated (index \<open>nbSymmetrics - 1\<close>);
  with restriction the last position \<open>j\<close> that is retained (within the margin of the
  asymmetric unit) and whose reduced coordinates are at most the bounds of the
  asymmetric unit (\<open>\<le>\<close>, on the quantized coordinates and bounds when \<^verbatim>\<open>fast=true\<close>).
\<close>

theorem unique_position_is_last:
  assumes "i < length comps"
  shows "(useAsymUnit c \<longleftrightarrow> asymXmax c * asymYmax c * asymZmax c < 0.6)
       \<and> (\<not> useAsymUnit c \<and> 0 < nbSymmetrics c \<longrightarrow>
            mUniquePosSymmetryIndex (buildDistTable c fast m comps tbl ! i) = nbSymmetrics c - 1)
       \<and> (useAsymUnit c \<and> j < nbSymmetrics c \<and> becomesUnique c fast m (comps ! i) i j
            \<and> (\<forall>j'. j < j' \<and> j' < nbSymmetrics c \<longrightarrow> \<not> becomesUnique c fast m (comps ! i) i j')
            \<longrightarrow> mUniquePosSymmetryIndex (buildDistTable c fast m comps tbl ! i) = j)"
proof (intro conjI impI)
  show "useAsymUnit c \<longleftrightarrow> asymXmax c * asymYmax c * asymZmax c < 0.6"
    by (simp add: useAsymUnit_def)
next
  assume a: "\<not> useAsymUnit c \<and> 0 < nbSymmetrics c"
  then obtain n where n: "nbSymmetrics c = Suc n" by (cases "nbSymmetrics c") auto
  from a have "becomesUnique c fast m (comps ! i) i n" by (simp add: becomesUnique_def)
  then show "mUniquePosSymmetryIndex (buildDistTable c fast m comps tbl ! i) = nbSymmetrics c - 1"
    unfolding buildDistTable_unique[OF assms] n by (simp add: setUnique_def)
next
  assume a: "useAsymUnit c \<and> j < nbSymmetrics c \<and> becomesUnique c fast m (comps ! i) i j
            \<and> (\<forall>j'. j < j' \<and> j' < nbSymmetrics c \<longrightarrow> \<not> becomesUnique c fast m (comps ! i) i j')"
  then have "lastBelow (becomesUnique c fast m (comps ! i) i) (nbSymmetrics c) = Some j"
    unfolding lastBelow_Some by blast
  then show "mUniquePosSymmetryIndex (buildDistTable c fast m comps tbl ! i) = j"
    unfolding buildDistTable_unique[OF assms] by (simp add: setUnique_def)
qed

theorem unique_position_is_last_witness:
  "(0::nat) < length [atomAt (1/16) 0 0 1]
   \<and> useAsymUnit (cellInv 10 (1/2)) \<and> (0::nat) < nbSymmetrics (cellInv 10 (1/2))
   \<and> becomesUnique (cellInv 10 (1/2)) True 4 ([atomAt (1/16) 0 0 1] ! 0) 0 0
   \<and> \<not> becomesUnique (cellInv 10 (1/2)) True 4 ([atomAt (1/16) 0 0 1] ! 0) 0 1
   \<and> mUniquePosSymmetryIndex
         (buildDistTable (cellInv 10 (1/2)) True 4 [atomAt (1/16) 0 0 1] [] ! 0) = 0
   \<and> \<not> useAsymUnit (cellInv 10 1) \<and> (0::nat) < nbSymmetrics (cellInv 10 1)
   \<and> mUniquePosSymmetryIndex
         (buildDistTable (cellInv 10 1) True 4 [atomAt (1/16) 0 0 1] [] ! 0)
       = nbSymmetrics (cellInv 10 1) - 1"
proof -
  have h0: "(0::nat) < length [atomAt (1/16) 0 0 1]" by simp
  have h1: "useAsymUnit (cellInv 10 (1/2))" "(0::nat) < nbSymmetrics (cellInv 10 (1/2))"
    "\<not> useAsymUnit (cellInv 10 1)" "(0::nat) < nbSymmetrics (cellInv 10 1)"
    by (simp_all add: useAsymUnit_def cellInv_def)
  have h2: "becomesUnique (cellInv 10 (1/2)) True 4 ([atomAt (1/16) 0 0 1] ! 0) 0 0"
    by (simp add: becomesUnique_def crystal_eval distTable_eval)
  have h3: "\<not> becomesUnique (cellInv 10 (1/2)) True 4 ([atomAt (1/16) 0 0 1] ! 0) 0 1"
    by (simp add: becomesUnique_def crystal_eval distTable_eval)
  have h4: "\<forall>j'. 0 < j' \<and> j' < nbSymmetrics (cellInv 10 (1/2))
              \<longrightarrow> \<not> becomesUnique (cellInv 10 (1/2)) True 4 ([atomAt (1/16) 0 0 1] ! 0) 0 j'"
  proof (intro allI impI)
    fix j' :: nat
    assume "0 < j' \<and> j' < nbSymmetrics (cellInv 10 (1/2))"
    then have "j' = 1" by (simp add: cellInv_def)
    with h3 show "\<not> becomesUnique (cellInv 10 (1/2)) True 4 ([atomAt (1/16) 0 0 1] ! 0) 0 j'"
      by simp
  qed
  from unique_position_is_last [OF h0, of "cellInv 10 (1/2)" True 4 "[]" 0] h1 h2 h4
  have r1: "mUniquePosSymmetryIndex
         (buildDistTable (cellInv 10 (1/2)) True 4 [atomAt (1/16) 0 0 1] [] ! 0) = 0"
    by blast
  from unique_position_is_last [OF h0, of "cellInv 10 1" True 4 "[]" 0] h1
  have r2: "mUniquePosSymmetryIndex
         (buildDistTable (cellInv 10 1) True 4 [atomAt (1/16) 0 0 1] [] ! 0)
       = nbSymmetrics (cellInv 10 1) - 1"
    by blast
  from h0 h1 h2 h3 r1 r2 show ?thesis by blast
qed

text \<open>
  Claim C1 as stated fails. Without restriction (two symmetric positions, asymmetric
  unit the whole cell) the recorded position is the second one generated, not the first.
  With restriction, for an atom at \<open>(0, 1/4, 1/4)\<close> both symmetric positions are retained
  and within the bounds, and the recorded one is again the second.
\<close>

theorem unique_position_first_counterexample:
  "\<not> useAsymUnit (cellInv 10 1)
   \<and> mUniquePosSymmetryIndex
         (buildDistTable (cellInv 10 1) True 4 [atomAt (1/4) (1/4) (1/4) 1] [] ! 0) \<noteq> 0
   \<and> useAsymUnit (cellInv 10 (1/2))
   \<and> becomesUnique (cellInv 10 (1/2)) True 4 (atomAt 0 (1/4) (1/4) 1) 0 0
   \<and> becomesUnique (cellInv 10 (1/2)) True 4 (atomAt 0 (1/4) (1/4) 1) 0 1
   \<and> mUniquePosSymmetryIndex
         (buildDistTable (cellInv 10 (1/2)) True 4 [atomAt 0 (1/4) (1/4) 1] [] ! 0) \<noteq> 0"
  by (simp add: becomesUnique_def crystal_eval distTable_eval)

section \<open>Proofs: the quantized and the exact path\<close>

lemma toLong_near: "\<bar>of_int (toLong r) - r\<bar> < 1"
  unfolding toLong_def by (auto; linarith)

lemma and_mask14: "(a::int) AND 16383 = a mod 16384"
proof -
  have "(16383::int) = mask 14" by (simp add: mask_eq_exp_minus_1)
  then have "a AND 16383 = take_bit 14 a" by (simp add: take_bit_eq_mask)
  then show ?thesis by (simp add: take_bit_eq_mod)
qed

lemma and_mask13: "(a::int) AND 8191 = a mod 8192"
proof -
  have "(8191::int) = mask 13" by (simp add: mask_eq_exp_minus_1)
  then have "a AND 8191 = take_bit 13 a" by (simp add: take_bit_eq_mask)
  then show ?thesis by (simp add: take_bit_eq_mod)
qed

lemma and_bit13:
  assumes "0 \<le> d" "d < 16384"
  shows "(d AND 8192 \<noteq> 0) \<longleftrightarrow> 8192 \<le> (d::int)"
proof -
  have "(8192::int) = 2 ^ 13" by simp
  then have "(d AND 8192 = 0) \<longleftrightarrow> \<not> bit d 13"
    by (simp only: and_exp_eq_0_iff_not_bit)
  also have "\<dots> \<longleftrightarrow> \<not> odd (d div 8192)" by (simp add: bit_iff_odd)
  also have "\<dots> \<longleftrightarrow> d < 8192"
  proof (cases "d < 8192")
    case True
    with assms have "d div 8192 = 0" by simp
    with True show ?thesis by simp
  next
    case False
    with assms have "d div 8192 = 1" by simp
    with False show ?thesis by simp
  qed
  finally show ?thesis by auto
qed

lemma foldHalf_range:
  assumes "0 \<le> d" "d < 16384"
  shows "foldHalf d = (if 8192 \<le> d then 16383 - d else d)"
proof (cases "8192 \<le> d")
  case True
  have "(- d - 1) mod 8192 = 16383 - d"
  proof -
    have "((16383 - d) + (- 2) * 8192) mod 8192 = (16383 - d) mod 8192"
      by (rule mod_mult_self1)
    moreover have "(16383 - d) + (- 2) * 8192 = - d - 1" by simp
    ultimately have "(- d - 1) mod 8192 = (16383 - d) mod 8192" by (simp only:)
    also have "\<dots> = 16383 - d"
      by (rule mod_pos_pos_trivial) (use True assms in simp_all)
    finally show ?thesis .
  qed
  with True assms show ?thesis
    by (simp add: foldHalf_def and_bit13 HALF_FRAC2LONG_def HALF_FRAC2LONGMASK_def and_mask13 not_int_def)
next
  case False
  with assms show ?thesis
    by (simp add: foldHalf_def and_bit13 HALF_FRAC2LONG_def)
qed

lemma quantize_mod: "quantize r = toLong (r * 16384) mod 16384"
  by (simp add: quantize_def FRAC2LONG_def FRAC2LONGMASK_def and_mask14)

lemma reduce01_frac: "reduce01 r = frac r"
proof (cases "0 \<le> r")
  case True
  then have "modf r = frac r" by (simp add: modf_def toLong_def frac_def)
  then show ?thesis by (simp add: reduce01_def not_less)
next
  case False
  show ?thesis
  proof (cases "r = of_int \<lfloor>r\<rfloor>")
    case True
    then have "\<lceil>r\<rceil> = \<lfloor>r\<rfloor>" by (simp add: ceiling_altdef)
    with False have "modf r = frac r" by (simp add: modf_def toLong_def frac_def)
    then show ?thesis by (simp add: reduce01_def not_less)
  next
    case ni: False
    then have "\<lceil>r\<rceil> = \<lfloor>r\<rfloor> + 1" by (simp add: ceiling_altdef)
    with False have m: "modf r = frac r - 1" by (simp add: modf_def toLong_def frac_def)
    with frac_lt_1[of r] show ?thesis by (simp add: reduce01_def)
  qed
qed

lemma foldExact_frac: "foldExact d = (if frac d > 1 / 2 then 1 - frac d else frac d)"
proof -
  have "(if modf d < 0 then modf d + 1 else modf d) = frac d"
    using reduce01_frac[of d] by (simp add: reduce01_def)
  then show ?thesis by (simp add: foldExact_def Let_def)
qed

lemma frac_diff_frac: "frac (frac v - frac u) = frac (v - u)"
proof -
  have "frac v - frac u = (v - u) + of_int (\<lfloor>u\<rfloor> - \<lfloor>v\<rfloor>)" by (simp add: frac_def)
  then show ?thesis by (simp only: frac_add_of_int_right)
qed

lemma axis_close:
  "\<bar>of_int (foldHalf ((quantize v - quantize u) AND FRAC2LONGMASK)) / 16384
     - foldExact (reduce01 v - reduce01 u)\<bar> < 3 / 16384"
proof -
  define tu where "tu = toLong (u * 16384)"
  define tv where "tv = toLong (v * 16384)"
  define D where "D = (tv - tu) mod 16384"
  define w where "w = v - u"
  define E where "E = 16384 * frac w"
  define dl where "dl = of_int (tv - tu) - 16384 * w"
  define n where "n = (tv - tu) div 16384 - \<lfloor>w\<rfloor>"
  define d where "d = (of_int D :: real)"
  have Dq: "(quantize v - quantize u) AND FRAC2LONGMASK = D"
    unfolding quantize_mod FRAC2LONGMASK_def and_mask14 D_def tu_def tv_def
    by (rule mod_diff_eq)
  have Dr: "0 \<le> D" "D < 16384" by (simp_all add: D_def)
  have fh: "foldHalf D = (if 8192 \<le> D then 16383 - D else D)"
    using Dr by (rule foldHalf_range)
  have fe: "foldExact (reduce01 v - reduce01 u) = (if frac w > 1 / 2 then 1 - frac w else frac w)"
    unfolding foldExact_frac reduce01_frac frac_diff_frac w_def ..
  have Er: "0 \<le> E" "E < 16384"
    using frac_ge_0[of w] frac_lt_1[of w] by (simp_all add: E_def)
  have "\<bar>of_int tv - v * 16384\<bar> < 1" "\<bar>of_int tu - u * 16384\<bar> < 1"
    unfolding tu_def tv_def by (rule toLong_near)+
  then have dlr: "- 2 < dl" "dl < 2"
    by (simp_all add: dl_def w_def algebra_simps)
  have "tv - tu = 16384 * ((tv - tu) div 16384) + D"
    unfolding D_def by simp
  then have "(of_int (tv - tu) :: real) = 16384 * of_int ((tv - tu) div 16384) + of_int D"
    by (metis of_int_add of_int_mult of_int_numeral)
  then have rel: "d - E = dl - 16384 * of_int n"
    by (simp add: d_def E_def dl_def n_def frac_def algebra_simps)
  have dr: "0 \<le> d" "d < 16384" using Dr by (simp_all add: d_def)
  have n_le: "n \<le> 1"
  proof (rule ccontr)
    assume "\<not> n \<le> 1"
    then have "2 \<le> n" by simp
    then have "(2::real) \<le> of_int n" by linarith
    with rel dr Er dlr show False by linarith
  qed
  have n_ge: "- 1 \<le> n"
  proof (rule ccontr)
    assume "\<not> - 1 \<le> n"
    then have "n \<le> - 2" by simp
    then have "of_int n \<le> (- 2 :: real)" by linarith
    with rel dr Er dlr show False by linarith
  qed
  from n_le n_ge consider "n = - 1" | "n = 0" | "n = 1" by linarith
  then have key: "\<bar>(if 8192 \<le> d then 16383 - d else d)
                  - (if E > 8192 then 16384 - E else E)\<bar> < 3"
  proof cases
    case 1
    with rel have "d - E = dl + 16384" by simp
    with dr Er dlr show ?thesis by (auto split: if_splits) 
  next
    case 2
    with rel have "d - E = dl" by simp
    with dr Er dlr show ?thesis by (auto split: if_splits)
  next
    case 3
    with rel have "d - E = dl - 16384" by simp
    with dr Er dlr show ?thesis by (auto split: if_splits)
  qed
  have l: "of_int (foldHalf D) = (if 8192 \<le> d then 16383 - d else d)"
    unfolding fh d_def by simp
  have r: "(if frac w > 1 / 2 then 1 - frac w else frac w)
      = (if E > 8192 then 16384 - E else E) / 16384"
    by (simp add: E_def)
  have "\<bar>of_int (foldHalf D) / 16384 - (if frac w > 1 / 2 then 1 - frac w else frac w)\<bar>
      = \<bar>(if 8192 \<le> d then 16383 - d else d) - (if E > 8192 then 16384 - E else E)\<bar> / 16384"
    unfolding l r by (simp add: diff_divide_distrib[symmetric] del: of_int_diff)
  also have "\<dots> < 3 / 16384"
    using key by (simp add: divide_strict_right_mono)
  finally show ?thesis
    unfolding Dq fe .
qed

lemma foldHalf_bounds:
  "0 \<le> foldHalf (a AND FRAC2LONGMASK)" "foldHalf (a AND FRAC2LONGMASK) \<le> 8191"
proof -
  have r: "0 \<le> a mod 16384" "a mod 16384 < 16384" by simp_all
  show "0 \<le> foldHalf (a AND FRAC2LONGMASK)" "foldHalf (a AND FRAC2LONGMASK) \<le> 8191"
    unfolding FRAC2LONGMASK_def and_mask14 foldHalf_range[OF r] using r by (auto split: if_splits)
qed

lemma foldExact_bounds: "0 \<le> foldExact d" "foldExact d \<le> 1 / 2"
  unfolding foldExact_frac using frac_ge_0[of d] frac_lt_1[of d] by (auto split: if_splits) 

lemma row_close:
  fixes a b c :: real
  assumes "\<bar>x - x'\<bar> \<le> e" "\<bar>y - y'\<bar> \<le> e" "\<bar>z - z'\<bar> \<le> e"
    and "0 \<le> x" "x \<le> 1 / 2" "0 \<le> x'" "x' \<le> 1 / 2"
    and "0 \<le> y" "y \<le> 1 / 2" "0 \<le> y'" "y' \<le> 1 / 2"
    and "0 \<le> z" "z \<le> 1 / 2" "0 \<le> z'" "z' \<le> 1 / 2"
  shows "\<bar>(a * x + b * y + c * z)\<^sup>2 - (a * x' + b * y' + c * z')\<^sup>2\<bar>
       \<le> e * (\<bar>a\<bar> + \<bar>b\<bar> + \<bar>c\<bar>)\<^sup>2"
proof -
  let ?X = "a * x + b * y + c * z" and ?X' = "a * x' + b * y' + c * z'"
  let ?S = "\<bar>a\<bar> + \<bar>b\<bar> + \<bar>c\<bar>"
  have e0: "0 \<le> e" using assms(1) by linarith
  have "\<bar>a * (x - x')\<bar> \<le> \<bar>a\<bar> * e" "\<bar>b * (y - y')\<bar> \<le> \<bar>b\<bar> * e" "\<bar>c * (z - z')\<bar> \<le> \<bar>c\<bar> * e"
    using assms(1,2,3) by (simp_all add: abs_mult mult_left_mono)
  moreover have "?X - ?X' = a * (x - x') + b * (y - y') + c * (z - z')"
    by (simp add: algebra_simps)
  ultimately have d: "\<bar>?X - ?X'\<bar> \<le> e * ?S"
    by (simp add: algebra_simps) linarith
  have "\<bar>x + x'\<bar> \<le> 1" "\<bar>y + y'\<bar> \<le> 1" "\<bar>z + z'\<bar> \<le> 1"
    using assms by simp_all
  then have "\<bar>a * (x + x')\<bar> \<le> \<bar>a\<bar> * 1" "\<bar>b * (y + y')\<bar> \<le> \<bar>b\<bar> * 1" "\<bar>c * (z + z')\<bar> \<le> \<bar>c\<bar> * 1"
    unfolding abs_mult by (intro mult_left_mono; simp)+
  moreover have "?X + ?X' = a * (x + x') + b * (y + y') + c * (z + z')"
    by (simp add: algebra_simps)
  ultimately have s: "\<bar>?X + ?X'\<bar> \<le> ?S"
    by (simp add: algebra_simps) linarith
  have "?X\<^sup>2 - ?X'\<^sup>2 = (?X - ?X') * (?X + ?X')"
    by (simp add: power2_eq_square algebra_simps)
  then have "\<bar>?X\<^sup>2 - ?X'\<^sup>2\<bar> = \<bar>?X - ?X'\<bar> * \<bar>?X + ?X'\<bar>"
    by (simp only: abs_mult)
  also have "\<dots> \<le> (e * ?S) * ?S"
    using d s e0 by (intro mult_mono) simp_all
  also have "\<dots> = e * ?S\<^sup>2"
    by (simp add: power2_eq_square)
  finally show ?thesis .
qed

lemma dist2_close:
  assumes "upperTriangular c" and "samePoint uf ue" and "samePoint pf pe"
  shows "\<bar>dist2Fast c uf pf - dist2Exact c ue pe\<bar> \<le> quantBound c"
proof -
  from assms(2) obtain i1 j1 ux uy uz where
    uf: "uf = DistTableInternalPositionL i1 j1 (quantize ux) (quantize uy) (quantize uz)"
    and ue: "ue = DistTableInternalPositionR i1 j1 (reduce01 ux) (reduce01 uy) (reduce01 uz)"
    unfolding samePoint_def by blast
  from assms(3) obtain i2 j2 px py pz where
    pf: "pf = DistTableInternalPositionL i2 j2 (quantize px) (quantize py) (quantize pz)"
    and pe: "pe = DistTableInternalPositionR i2 j2 (reduce01 px) (reduce01 py) (reduce01 pz)"
    unfolding samePoint_def by blast
  define x' where "x' = (of_int (foldHalf ((quantize px - quantize ux) AND FRAC2LONGMASK)) :: real) / 16384"
  define y' where "y' = (of_int (foldHalf ((quantize py - quantize uy) AND FRAC2LONGMASK)) :: real) / 16384"
  define z' where "z' = (of_int (foldHalf ((quantize pz - quantize uz) AND FRAC2LONGMASK)) :: real) / 16384"
  define x where "x = foldExact (reduce01 px - reduce01 ux)"
  define y where "y = foldExact (reduce01 py - reduce01 uy)"
  define z where "z = foldExact (reduce01 pz - reduce01 uz)"
  let ?M = "orthMatrix c"
  have cl: "\<bar>x - x'\<bar> \<le> 3 / 16384" "\<bar>y - y'\<bar> \<le> 3 / 16384" "\<bar>z - z'\<bar> \<le> 3 / 16384"
    using axis_close[of px ux] axis_close[of py uy] axis_close[of pz uz]
    unfolding x_def x'_def y_def y'_def z_def z'_def by linarith+
  have bx: "0 \<le> x" "x \<le> 1 / 2" "0 \<le> y" "y \<le> 1 / 2" "0 \<le> z" "z \<le> 1 / 2"
    unfolding x_def y_def z_def by (rule foldExact_bounds)+
  have bx': "0 \<le> x'" "x' \<le> 1 / 2" "0 \<le> y'" "y' \<le> 1 / 2" "0 \<le> z'" "z' \<le> 1 / 2"
    using foldHalf_bounds[of "quantize px - quantize ux"] foldHalf_bounds[of "quantize py - quantize uy"]
      foldHalf_bounds[of "quantize pz - quantize uz"]
    unfolding x'_def y'_def z'_def by simp_all
  have F: "dist2Fast c uf pf = (?M (0, 0) * x' + ?M (0, 1) * y' + ?M (0, 2) * z')\<^sup>2
      + (0 * x' + ?M (1, 1) * y' + ?M (1, 2) * z')\<^sup>2 + (0 * x' + 0 * y' + ?M (2, 2) * z')\<^sup>2"
    unfolding uf pf x'_def y'_def z'_def
    by (simp add: dist2Fast_def Let_def DistTableInternalPositionL_def FRAC2LONG_def
        power2_eq_square)
  have E: "dist2Exact c ue pe = (?M (0, 0) * x + ?M (0, 1) * y + ?M (0, 2) * z)\<^sup>2
      + (0 * x + ?M (1, 1) * y + ?M (1, 2) * z)\<^sup>2 + (0 * x + 0 * y + ?M (2, 2) * z)\<^sup>2"
    using assms(1) unfolding ue pe x_def y_def z_def
    by (simp add: dist2Exact_def FractionalToOrthonormalCoords_def DistTableInternalPositionR_def
        upperTriangular_def power2_eq_square)
  have r0: "\<bar>(?M (0, 0) * x + ?M (0, 1) * y + ?M (0, 2) * z)\<^sup>2
             - (?M (0, 0) * x' + ?M (0, 1) * y' + ?M (0, 2) * z')\<^sup>2\<bar>
           \<le> 3 / 16384 * (rowSum c 0)\<^sup>2"
    unfolding rowSum_def using cl bx bx' by (intro row_close) simp_all
  have r1: "\<bar>(0 * x + ?M (1, 1) * y + ?M (1, 2) * z)\<^sup>2
             - (0 * x' + ?M (1, 1) * y' + ?M (1, 2) * z')\<^sup>2\<bar>
           \<le> 3 / 16384 * (\<bar>0\<bar> + \<bar>?M (1, 1)\<bar> + \<bar>?M (1, 2)\<bar>)\<^sup>2"
    using cl bx bx' by (intro row_close) simp_all
  have r2: "\<bar>(0 * x + 0 * y + ?M (2, 2) * z)\<^sup>2
             - (0 * x' + 0 * y' + ?M (2, 2) * z')\<^sup>2\<bar>
           \<le> 3 / 16384 * (\<bar>0\<bar> + \<bar>0\<bar> + \<bar>?M (2, 2)\<bar>)\<^sup>2"
    using cl bx bx' by (intro row_close) simp_all
  have s1: "rowSum c 1 = \<bar>0\<bar> + \<bar>?M (1, 1)\<bar> + \<bar>?M (1, 2)\<bar>"
    and s2: "rowSum c 2 = \<bar>0\<bar> + \<bar>0\<bar> + \<bar>?M (2, 2)\<bar>"
    using assms(1) by (simp_all add: rowSum_def upperTriangular_def)
  define A0 where "A0 = (?M (0, 0) * x + ?M (0, 1) * y + ?M (0, 2) * z)\<^sup>2"
  define A1 where "A1 = (0 * x + ?M (1, 1) * y + ?M (1, 2) * z)\<^sup>2"
  define A2 where "A2 = (0 * x + 0 * y + ?M (2, 2) * z)\<^sup>2"
  define B0 where "B0 = (?M (0, 0) * x' + ?M (0, 1) * y' + ?M (0, 2) * z')\<^sup>2"
  define B1 where "B1 = (0 * x' + ?M (1, 1) * y' + ?M (1, 2) * z')\<^sup>2"
  define B2 where "B2 = (0 * x' + 0 * y' + ?M (2, 2) * z')\<^sup>2"
  define T0 where "T0 = 3 / 16384 * (rowSum c 0)\<^sup>2"
  define T1 where "T1 = 3 / 16384 * (rowSum c 1)\<^sup>2"
  define T2 where "T2 = 3 / 16384 * (rowSum c 2)\<^sup>2"
  have "\<bar>A0 - B0\<bar> \<le> T0" "\<bar>A1 - B1\<bar> \<le> T1" "\<bar>A2 - B2\<bar> \<le> T2"
    using r0 r1 r2 unfolding A0_def A1_def A2_def B0_def B1_def B2_def T0_def T1_def T2_def s1 s2
    by blast+
  then have "\<bar>(B0 + B1 + B2) - (A0 + A1 + A2)\<bar> \<le> T0 + T1 + T2"
    by linarith
  moreover have "quantBound c = T0 + T1 + T2"
    unfolding quantBound_def T0_def T1_def T2_def by (simp only: distrib_left)
  moreover have "dist2Fast c uf pf = B0 + B1 + B2"
    unfolding F B0_def B1_def B2_def ..
  moreover have "dist2Exact c ue pe = A0 + A1 + A2"
    unfolding E A0_def A1_def A2_def ..
  ultimately show ?thesis by (simp only:)
qed

lemma pos_samePoint: "samePoint (posFast c cmpt i j) (posExact c cmpt i j)"
  unfolding samePoint_def posFast_def posExact_def
  by (cases "symmetric c j (mX cmpt, mY cmpt, mZ cmpt)") (simp, intro exI conjI, (rule refl)+)

lemma list_all_list_update:
  "list_all Q xs \<Longrightarrow> Q x \<Longrightarrow> list_all Q (xs[k := x])"
  unfolding list_all_iff using set_update_subset_insert[of xs k x] by auto

lemma addPosition_agree:
  assumes "buildsAgree bf be" and "samePoint pf pe"
  shows "buildsAgree (addPosition ua nr ins i j pf bf) (addPosition ua nr ins i j pe be)"
proof -
  obtain vPf vUf Tf where bf: "bf = (vPf, vUf, Tf)" by (cases bf)
  obtain vPe vUe Te where be: "be = (vPe, vUe, Te)" by (cases be)
  from assms(1) have a: "list_all2 samePoint vPf vPe" "vUf = vUe" "Tf = Te"
    "list_all (\<lambda>u. u \<le> length vPf - 1) vUf" "length vUf = length Tf"
    by (auto simp: buildsAgree_def bf be)
  from a(1) have len: "length vPf = length vPe" by (rule list_all2_lengthD)
  from a(1) assms(2) have app: "list_all2 samePoint (vPf @ [pf]) (vPe @ [pe])"
    by (simp add: list_all2_appendI)
  from a(4) have w: "list_all (\<lambda>u. u \<le> length (vPf @ [pf]) - 1) vUf"
    by (auto simp: list_all_iff)
  then have w': "list_all (\<lambda>u. u \<le> length (vPf @ [pf]) - 1) (vUf[i := length (vPf @ [pf]) - 1])"
    by (rule list_all_list_update) simp
  show ?thesis
    using a len app w w'
    by (simp add: buildsAgree_def bf be addPosition_def)
qed

lemma addPosition_unrestricted:
  "addPosition False nr ins i j p b = addPosition False True True i j p b"
  by (cases b) (simp add: addPosition_def)

lemma symPos_agree:
  assumes "buildsAgree bf be" and "sameChoice c m cmpt i j"
  shows "buildsAgree (symPosFast c m cmpt i j bf) (symPosExact c m cmpt i j be)"
proof (cases "useAsymUnit c")
  case True
  with assms(2) have "nearFast c m (posFast c cmpt i j) = nearExact c m (posExact c cmpt i j)"
    "insideFast c (posFast c cmpt i j) = insideExact c (posExact c cmpt i j)"
    by (simp_all add: sameChoice_def)
  then show ?thesis
    unfolding symPosFast_def symPosExact_def Let_def
    using addPosition_agree[OF assms(1) pos_samePoint] by simp
next
  case False
  have "symPosFast c m cmpt i j bf = addPosition False True True i j (posFast c cmpt i j) bf"
    unfolding symPosFast_def Let_def using False
    by (simp only: addPosition_unrestricted[of "nearFast c m (posFast c cmpt i j)"])
  moreover have "symPosExact c m cmpt i j be = addPosition False True True i j (posExact c cmpt i j) be"
    unfolding symPosExact_def Let_def using False
    by (simp only: addPosition_unrestricted[of "nearExact c m (posExact c cmpt i j)"])
  ultimately show ?thesis
    using addPosition_agree[OF assms(1) pos_samePoint] by simp
qed

lemma inner_agree:
  assumes "buildsAgree bf be" and "\<forall>j \<in> set js. sameChoice c m cmpt i j"
  shows "buildsAgree (fold (symPosFast c m cmpt i) js bf) (fold (symPosExact c m cmpt i) js be)"
  using assms
proof (induction js arbitrary: bf be)
  case Nil
  then show ?case by simp
next
  case (Cons j js)
  from Cons.prems have "buildsAgree (symPosFast c m cmpt i j bf) (symPosExact c m cmpt i j be)"
    by (intro symPos_agree) simp_all
  with Cons show ?case by simp
qed

lemma setIndex_agree:
  assumes "buildsAgree bf be"
  shows "buildsAgree
     (case bf of (vPos, vUniqueIndex, tbl) \<Rightarrow> (vPos, vUniqueIndex, tbl[i := (tbl ! i)\<lparr>mIndex := i\<rparr>]))
     (case be of (vPos, vUniqueIndex, tbl) \<Rightarrow> (vPos, vUniqueIndex, tbl[i := (tbl ! i)\<lparr>mIndex := i\<rparr>]))"
  using assms by (cases bf; cases be) (simp add: buildsAgree_def)

lemma outer_agree:
  assumes "buildsAgree bf be"
    and "\<forall>i \<in> set ks. \<forall>j < n. sameChoice c m (comps ! i) i j"
  shows "buildsAgree
     (fold (\<lambda>i b. fold (symPosFast c m (comps ! i) i) [0..<n]
                    (case b of (vPos, vUniqueIndex, tbl) \<Rightarrow>
                       (vPos, vUniqueIndex, tbl[i := (tbl ! i)\<lparr>mIndex := i\<rparr>]))) ks bf)
     (fold (\<lambda>i b. fold (symPosExact c m (comps ! i) i) [0..<n]
                    (case b of (vPos, vUniqueIndex, tbl) \<Rightarrow>
                       (vPos, vUniqueIndex, tbl[i := (tbl ! i)\<lparr>mIndex := i\<rparr>]))) ks be)"
  using assms
proof (induction ks arbitrary: bf be)
  case Nil
  then show ?case by simp
next
  case (Cons i ks)
  have "buildsAgree
     (fold (symPosFast c m (comps ! i) i) [0..<n]
        (case bf of (vPos, vUniqueIndex, tbl) \<Rightarrow> (vPos, vUniqueIndex, tbl[i := (tbl ! i)\<lparr>mIndex := i\<rparr>])))
     (fold (symPosExact c m (comps ! i) i) [0..<n]
        (case be of (vPos, vUniqueIndex, tbl) \<Rightarrow> (vPos, vUniqueIndex, tbl[i := (tbl ! i)\<lparr>mIndex := i\<rparr>])))"
    using Cons.prems by (intro inner_agree setIndex_agree) simp_all
  with Cons show ?case by simp
qed

lemma listPositions_agree:
  assumes "sameChoices c m comps" and "buildsAgree b0 b0"
  shows "buildsAgree (listPositions c True m comps b0) (listPositions c False m comps b0)"
proof -
  have "\<forall>i \<in> set [0..<length comps]. \<forall>j < nbSymmetrics c. sameChoice c m (comps ! i) i j"
    using assms(1) by (simp add: sameChoices_def)
  with assms(2) show ?thesis
    unfolding listPositions_def by (simp add: outer_agree)
qed

lemma samePoint_indices:
  "samePoint pf pe \<Longrightarrow> mAtomIndex pf = mAtomIndex pe \<and> mSymmetryIndex pf = mSymmetryIndex pe"
  unfolding samePoint_def
  by (auto simp: DistTableInternalPositionL_def DistTableInternalPositionR_def)

lemma quantBound_nonneg: "0 \<le> quantBound c"
  unfolding quantBound_def by simp

lemma hoodClose_refl: "hoodClose c h h"
  unfolding hoodClose_def neighbourClose_def
  by (simp add: list_all2_same quantBound_nonneg)

lemma neighboursOf_close:
  assumes "upperTriangular c" and "list_all2 samePoint vPf vPe" and "u \<le> length vPf - 1"
  shows "list_all2 (neighbourClose c) (neighboursOf c True vPf u) (neighboursOf c False vPe u)"
proof -
  from assms(2) have len: "length vPf = length vPe" by (rule list_all2_lengthD)
  have "neighbourClose c
          \<lparr>mNeighbourIndex = mAtomIndex (vPf ! j), mNeighbourSymmetryIndex = mSymmetryIndex (vPf ! j),
           mDist2 = dist2Fast c (vPf ! u) (vPf ! j)\<rparr>
          \<lparr>mNeighbourIndex = mAtomIndex (vPe ! j), mNeighbourSymmetryIndex = mSymmetryIndex (vPe ! j),
           mDist2 = dist2Exact c (vPe ! u) (vPe ! j)\<rparr>"
    if "j < length vPf" for j
  proof -
    from that assms(3) have u: "u < length vPf" by simp
    from assms(2) that have pj: "samePoint (vPf ! j) (vPe ! j)" by (rule list_all2_nthD)
    from assms(2) u have pu: "samePoint (vPf ! u) (vPe ! u)" by (rule list_all2_nthD)
    from dist2_close[OF assms(1) pu pj] samePoint_indices[OF pj]
    show ?thesis by (simp add: neighbourClose_def)
  qed
  then show ?thesis
    unfolding neighboursOf_def len[symmetric]
    by (simp add: list_all2_map1 list_all2_map2 list_all2_same)
qed

lemma push_close:
  assumes "list_all2 (hoodClose c) Tf Te"
    and "i < length Tf \<longrightarrow> list_all2 (neighbourClose c) nf ne"
  shows "list_all2 (hoodClose c)
           (Tf[i := (Tf ! i)\<lparr>mvNeighbour := mvNeighbour (Tf ! i) @ nf\<rparr>])
           (Te[i := (Te ! i)\<lparr>mvNeighbour := mvNeighbour (Te ! i) @ ne\<rparr>])"
proof (cases "i < length Tf")
  case True
  with assms(1) have h: "hoodClose c (Tf ! i) (Te ! i)" by (rule list_all2_nthD)
  from True assms(2) have n: "list_all2 (neighbourClose c) nf ne" by simp
  have "hoodClose c ((Tf ! i)\<lparr>mvNeighbour := mvNeighbour (Tf ! i) @ nf\<rparr>)
                    ((Te ! i)\<lparr>mvNeighbour := mvNeighbour (Te ! i) @ ne\<rparr>)"
    using h n by (simp add: hoodClose_def list_all2_appendI)
  with assms(1) show ?thesis by (rule list_all2_update_cong)
next
  case False
  moreover from assms(1) have "length Tf = length Te" by (rule list_all2_lengthD)
  ultimately show ?thesis using assms(1) by (simp add: list_update_beyond not_less)
qed

lemma distances_close:
  assumes "upperTriangular c" and "list_all2 samePoint vPf vPe"
    and "list_all (\<lambda>u. u \<le> length vPf - 1) vU" and "length vU = length Tf"
    and "list_all2 (hoodClose c) Tf Te"
  shows "list_all2 (hoodClose c)
     (fold (\<lambda>i tbl. tbl[i := (tbl ! i)\<lparr>mvNeighbour :=
                 mvNeighbour (tbl ! i) @ neighboursOf c True vPf (vU ! i)\<rparr>]) ks Tf)
     (fold (\<lambda>i tbl. tbl[i := (tbl ! i)\<lparr>mvNeighbour :=
                 mvNeighbour (tbl ! i) @ neighboursOf c False vPe (vU ! i)\<rparr>]) ks Te)"
  using assms(4,5)
proof (induction ks arbitrary: Tf Te)
  case Nil
  then show ?case by simp
next
  case (Cons i ks)
  have "list_all2 (hoodClose c)
           (Tf[i := (Tf ! i)\<lparr>mvNeighbour := mvNeighbour (Tf ! i) @ neighboursOf c True vPf (vU ! i)\<rparr>])
           (Te[i := (Te ! i)\<lparr>mvNeighbour := mvNeighbour (Te ! i) @ neighboursOf c False vPe (vU ! i)\<rparr>])"
  proof (rule push_close[OF Cons.prems(2)], rule impI)
    assume "i < length Tf"
    with Cons.prems(1) have "i < length vU" by simp
    with assms(3) have "vU ! i \<le> length vPf - 1" by (simp add: list_all_length)
    with assms(1,2) show "list_all2 (neighbourClose c)
        (neighboursOf c True vPf (vU ! i)) (neighboursOf c False vPe (vU ! i))"
      by (rule neighboursOf_close)
  qed
  moreover have "length vU = length (Tf[i := (Tf ! i)\<lparr>mvNeighbour := mvNeighbour (Tf ! i) @ neighboursOf c True vPf (vU ! i)\<rparr>])"
    using Cons.prems(1) by simp
  ultimately show ?case using Cons.IH by simp
qed

lemma computeDistances_close:
  assumes "upperTriangular c" and "buildsAgree bf be"
  shows "list_all2 (hoodClose c) (computeDistances c True n bf) (computeDistances c False n be)"
proof -
  obtain vPf vUf Tf where bf: "bf = (vPf, vUf, Tf)" by (cases bf)
  obtain vPe vUe Te where be: "be = (vPe, vUe, Te)" by (cases be)
  from assms(2) have a: "list_all2 samePoint vPf vPe" "vUf = vUe" "Tf = Te"
    "list_all (\<lambda>u. u \<le> length vPf - 1) vUf" "length vUf = length Tf"
    by (auto simp: buildsAgree_def bf be)
  have r: "list_all2 (hoodClose c) Tf Tf"
    by (simp add: list_all2_same hoodClose_refl)
  show ?thesis
    unfolding computeDistances_def bf be prod.case a(2)[symmetric] a(3)[symmetric]
    by (rule distances_close[OF assms(1) a(1) a(4) a(5) r])
qed

lemma buildDistTable_close:
  assumes "upperTriangular c" and "sameChoices c m comps"
  shows "list_all2 (hoodClose c) (buildDistTable c True m comps tbl) (buildDistTable c False m comps tbl)"
proof -
  have "buildsAgree ([], replicate (length comps) 0, resizeTable (length comps) tbl)
                    ([], replicate (length comps) 0, resizeTable (length comps) tbl)"
    by (simp add: buildsAgree_def resizeTable_length list_all_iff)
  with assms(2) have "buildsAgree
      (listPositions c True m comps ([], replicate (length comps) 0, resizeTable (length comps) tbl))
      (listPositions c False m comps ([], replicate (length comps) 0, resizeTable (length comps) tbl))"
    by (rule listPositions_agree)
  with assms(1) show ?thesis
    unfolding buildDistTable_def by (rule computeDistances_close)
qed

lemma ceiling_neg_small: "0 \<le> x \<Longrightarrow> x < 1 \<Longrightarrow> \<lceil>- x\<rceil> = (0::int)" for x :: real
  by (simp add: ceiling_eq_iff)

text \<open>
  Claim C2, as amended. Let the lower triangle of the fractional-to-orthonormal matrix
  be \<open>0\<close> (the fast path reads the upper triangle only), and let the tests against the
  limits of the asymmetric unit have the same outcome on the quantized and on the exact
  coordinates of every symmetric position (as they do without restriction). Then
  \<^verbatim>\<open>CalcDistTable\<close> with \<^verbatim>\<open>fast=true\<close> and with \<^verbatim>\<open>fast=false\<close> build tables with the same
  unique positions and the same neighbour records in the same order, and the squared
  distances of corresponding records differ by at most \<open>3/2^14\<close> times the sum of the
  squares of the absolute row sums of the matrix. On each axis the masked and folded
  integer difference, divided by \<open>2^14\<close>, is within \<open>3/2^14\<close> of the reduced exact
  difference, which both paths fold onto \<open>[0, 1/2]\<close>.
\<close>

theorem quantized_path_close:
  assumes "upperTriangular c" and "sameChoices c m comps"
  shows "list_all2 (hoodClose c) (buildDistTable c True m comps tbl)
                                 (buildDistTable c False m comps tbl)
       \<and> \<bar>of_int (foldHalf ((quantize v - quantize u) AND FRAC2LONGMASK)) / 16384
            - foldExact (reduce01 v - reduce01 u)\<bar> < 3 / 16384
       \<and> 0 \<le> foldExact (reduce01 v - reduce01 u)
       \<and> foldExact (reduce01 v - reduce01 u) \<le> 1 / 2"
  using buildDistTable_close[OF assms] axis_close[of v u]
    foldExact_bounds[of "reduce01 v - reduce01 u"]
  by simp

theorem quantized_path_close_witness:
  "upperTriangular (cellInv 10 (1/2))
   \<and> useAsymUnit (cellInv 10 (1/2))
   \<and> sameChoices (cellInv 10 (1/2)) 2 [atomAt (1/8) (1/4) (1/4) 1]
   \<and> list_all2 (hoodClose (cellInv 10 (1/2)))
        (buildDistTable (cellInv 10 (1/2)) True 2 [atomAt (1/8) (1/4) (1/4) 1] [])
        (buildDistTable (cellInv 10 (1/2)) False 2 [atomAt (1/8) (1/4) (1/4) 1] [])
   \<and> \<bar>of_int (foldHalf ((quantize (- (1/4)) - quantize (1/4)) AND FRAC2LONGMASK)) / 16384
        - foldExact (reduce01 (- (1/4)) - reduce01 (1/4))\<bar> < 3 / 16384
   \<and> mvNeighbour (buildDistTable (cellInv 10 (1/2)) True 2 [atomAt (1/8) (1/4) (1/4) 1] [] ! 0)
       = [\<lparr>mNeighbourIndex = 0, mNeighbourSymmetryIndex = 1, mDist2 = 3773849675 / 67108864\<rparr>]
   \<and> mvNeighbour (buildDistTable (cellInv 10 (1/2)) False 2 [atomAt (1/8) (1/4) (1/4) 1] [] ! 0)
       = [\<lparr>mNeighbourIndex = 0, mNeighbourSymmetryIndex = 1, mDist2 = 225 / 4\<rparr>]"
proof -
  have h1: "upperTriangular (cellInv 10 (1/2))"
    by (simp add: upperTriangular_def cellInv_def)
  have h2: "useAsymUnit (cellInv 10 (1/2))"
    by (simp add: useAsymUnit_def cellInv_def)
  have h3: "sameChoices (cellInv 10 (1/2)) 2 [atomAt (1/8) (1/4) (1/4) 1]"
    by (simp add: sameChoices_def sameChoice_def crystal_eval distTable_eval All_less_Suc
          ceiling_neg_small)
  have v1: "mvNeighbour (buildDistTable (cellInv 10 (1/2)) True 2 [atomAt (1/8) (1/4) (1/4) 1] [] ! 0)
       = [\<lparr>mNeighbourIndex = 0, mNeighbourSymmetryIndex = 1, mDist2 = 3773849675 / 67108864\<rparr>]"
    by (simp add: crystal_eval distTable_eval ceiling_neg_small)
  have v2: "mvNeighbour (buildDistTable (cellInv 10 (1/2)) False 2 [atomAt (1/8) (1/4) (1/4) 1] [] ! 0)
       = [\<lparr>mNeighbourIndex = 0, mNeighbourSymmetryIndex = 1, mDist2 = 225 / 4\<rparr>]"
    by (simp add: crystal_eval distTable_eval ceiling_neg_small)
  from quantized_path_close [OF h1 h3, of "[]" "- (1/4)" "1/4"] h1 h2 h3 v1 v2
  show ?thesis by blast
qed

text \<open>
  Claim C2 as stated fails at the limits of the asymmetric unit. With an inversion
  centre, a cell edge of \<open>10\<close>, \<open>xMax0 = 1/2\<close> and a margin of \<open>1\<close>, the limit with margin
  is \<open>0.6\<close>, quantized to \<open>9830\<close>. The atom at \<open>x = 39321/65536\<close> is below \<open>0.6\<close> but
  quantizes to \<open>9830\<close>, which is not below the quantized limit: the exact path retains
  the position and records it as a neighbour of the atom's image, the fast path drops it.
\<close>

theorem quantized_path_boundary_counterexample:
  "upperTriangular (cellInv 10 (1/2))
   \<and> mvNeighbour (buildDistTable (cellInv 10 (1/2)) True 1
                     [atomAt (39321/65536) (1/4) (1/4) 1] [] ! 0) = []
   \<and> mvNeighbour (buildDistTable (cellInv 10 (1/2)) False 1
                     [atomAt (39321/65536) (1/4) (1/4) 1] [] ! 0)
       = [\<lparr>mNeighbourIndex = 0, mNeighbourSymmetryIndex = 0,
           mDist2 = 14495318025 / 268435456\<rparr>]"
  by (simp add: upperTriangular_def crystal_eval distTable_eval ceiling_neg_small)

end
